theory Spec2Isabelle
  imports Main
begin

unbundle bit_operations_syntax

section \<open>An MQTT 3.1.1 client over a WebSocket: the model of src/index.js\<close>

text \<open>
  JavaScript numbers that the client handles are non-negative integers (bytes, UTF-16 code
  units, lengths, packet identifiers): they are \<open>nat\<close>. A \<open>Uint8Array\<close> and a plain array of
  numbers are both \<open>nat list\<close>; what distinguishes the typed array, that a stored value is
  reduced modulo 256 and that a write past the end is ignored, is written out in \<open>store\<close>.
  A JavaScript string is the list of its UTF-16 code units, which is what \<open>charCodeAt\<close>
  and \<open>String.fromCharCode\<close> convert from and to. Lengths, positions and identifiers stay
  far below \<open>2 ^ 53\<close>, where the doubles of the source are exact; the one number that an
  inbound packet can drive beyond that, the remaining length that \<open>_receivePacket\<close> adds
  up, is a \<open>jsnum\<close> with the rounding written out.
\<close>

type_synonym bytes = "nat list"
type_synonym jsstring = "nat list"

abbreviation (input) MQTT_PROTOCOL_NAME :: jsstring where
  "MQTT_PROTOCOL_NAME \<equiv> [77, 81, 84, 84]"
abbreviation (input) MQTT_PROTOCOL_LEVEL :: nat where
  "MQTT_PROTOCOL_LEVEL \<equiv> 4"

abbreviation (input) PACKET_TYPE_CONNECT :: nat where "PACKET_TYPE_CONNECT \<equiv> 1"
abbreviation (input) PACKET_TYPE_CONNACK :: nat where "PACKET_TYPE_CONNACK \<equiv> 2"
abbreviation (input) PACKET_TYPE_PUBLISH :: nat where "PACKET_TYPE_PUBLISH \<equiv> 3"
abbreviation (input) PACKET_TYPE_PUBACK :: nat where "PACKET_TYPE_PUBACK \<equiv> 4"
abbreviation (input) PACKET_TYPE_PUBREC :: nat where "PACKET_TYPE_PUBREC \<equiv> 5"
abbreviation (input) PACKET_TYPE_PUBREL :: nat where "PACKET_TYPE_PUBREL \<equiv> 6"
abbreviation (input) PACKET_TYPE_PUBCOMP :: nat where "PACKET_TYPE_PUBCOMP \<equiv> 7"
abbreviation (input) PACKET_TYPE_SUBSCRIBE :: nat where "PACKET_TYPE_SUBSCRIBE \<equiv> 8"
abbreviation (input) PACKET_TYPE_SUBACK :: nat where "PACKET_TYPE_SUBACK \<equiv> 9"
abbreviation (input) PACKET_TYPE_UNSUBSCRIBE :: nat where "PACKET_TYPE_UNSUBSCRIBE \<equiv> 10"
abbreviation (input) PACKET_TYPE_UNSUBACK :: nat where "PACKET_TYPE_UNSUBACK \<equiv> 11"
abbreviation (input) PACKET_TYPE_PINGREQ :: nat where "PACKET_TYPE_PINGREQ \<equiv> 12"
abbreviation (input) PACKET_TYPE_PINGRESP :: nat where "PACKET_TYPE_PINGRESP \<equiv> 13"
abbreviation (input) PACKET_TYPE_DISCONNECT :: nat where "PACKET_TYPE_DISCONNECT \<equiv> 14"

abbreviation (input) CONNECT_FLAG_WILL :: nat where "CONNECT_FLAG_WILL \<equiv> 2"

subsection \<open>The JavaScript operations the source relies on\<close>

text \<open>
  \<open>xs[i]\<close> is \<open>undefined\<close> out of range; a bitwise operator reads \<open>undefined\<close> as 0.
\<close>

definition idx :: "'a list \<Rightarrow> nat \<Rightarrow> 'a option" where
  "idx xs i = (if i < length xs then Some (xs ! i) else None)"

definition num :: "nat option \<Rightarrow> nat" where
  "num v = (case v of None \<Rightarrow> 0 | Some n \<Rightarrow> n)"

text \<open>
  \<open>x >> k\<close>: the operand is taken modulo \<open>2 ^ 32\<close> and read as a signed 32-bit integer,
  then shifted arithmetically.
\<close>

definition js_shr :: "nat \<Rightarrow> nat \<Rightarrow> int" where
  "js_shr x k =
     (let w = x mod 2 ^ 32;
          i = (if w < 2 ^ 31 then int w else int w - 2 ^ 32)
      in i div 2 ^ k)"

text \<open>\<open>bytes[p] = v\<close> on a \<open>Uint8Array\<close>.\<close>

definition store :: "bytes \<Rightarrow> nat \<Rightarrow> nat \<Rightarrow> bytes" where
  "store bs p v = (if p < length bs then bs[p := v mod 256] else bs)"

text \<open>\<open>xs.slice(a, b)\<close> and \<open>xs.slice(a)\<close> for non-negative arguments.\<close>

definition slice :: "'a list \<Rightarrow> nat \<Rightarrow> nat \<Rightarrow> 'a list" where
  "slice xs a b = take (b - a) (drop a xs)"

definition slice_from :: "'a list \<Rightarrow> nat \<Rightarrow> 'a list" where
  "slice_from xs a = drop a xs"

text \<open>\<open>new Uint8Array(data)\<close>: every element becomes a byte.\<close>

definition Uint8Array :: "nat list \<Rightarrow> bytes" where
  "Uint8Array xs = map (\<lambda>x. x mod 256) xs"

text \<open>
  A non-negative double: a finite one (it is an integer in all that follows), \<open>Infinity\<close> or
  \<open>NaN\<close>. \<open>round_double\<close> rounds a natural number to the nearest double, a 53-bit
  significand, ties to the even one, and to \<open>Infinity\<close> from \<open>2 ^ 1024\<close> on; sum and product
  are the exact result rounded.
\<close>

datatype jsnum = Finite nat | Infinity | NaN

fun bitlen :: "nat \<Rightarrow> nat" where
  "bitlen n = (if n = 0 then 0 else Suc (bitlen (n div 2)))"

declare bitlen.simps [simp del]

definition round_double :: "nat \<Rightarrow> jsnum" where
  "round_double n =
     (if n < 2 ^ 53 then Finite n
      else let e = bitlen n - 53;
               q = n div 2 ^ e;
               r = n mod 2 ^ e;
               h = 2 ^ (e - 1);
               q = (if h < r \<or> (r = h \<and> odd q) then q + 1 else q);
               v = q * 2 ^ e
           in if v < 2 ^ 1024 then Finite v else Infinity)"

fun js_add :: "jsnum \<Rightarrow> jsnum \<Rightarrow> jsnum" where
  "js_add (Finite a) (Finite b) = round_double (a + b)"
| "js_add NaN y = NaN"
| "js_add x NaN = NaN"
| "js_add x y = Infinity"

fun js_mul :: "jsnum \<Rightarrow> jsnum \<Rightarrow> jsnum" where
  "js_mul (Finite a) (Finite b) = round_double (a * b)"
| "js_mul NaN y = NaN"
| "js_mul x NaN = NaN"
| "js_mul Infinity (Finite b) = (if b = 0 then NaN else Infinity)"
| "js_mul (Finite a) Infinity = (if a = 0 then NaN else Infinity)"
| "js_mul Infinity Infinity = Infinity"

text \<open>
  \<open>xs.slice(a, e)\<close> where the end is a double: \<open>NaN\<close> counts as 0 and \<open>Infinity\<close> as the
  end of the array.
\<close>

definition slice_to :: "'a list \<Rightarrow> nat \<Rightarrow> jsnum \<Rightarrow> 'a list" where
  "slice_to xs a e =
     (case e of Finite b \<Rightarrow> slice xs a b | Infinity \<Rightarrow> slice_from xs a | NaN \<Rightarrow> slice xs a 0)"

subsection \<open>buildPacket\<close>

text \<open>
  The \<open>do ... while\<close> loop of \<open>buildPacket\<close> that writes the remaining length, seven bits
  a byte, least significant first, with bit 7 set on every byte but the last.
\<close>

function write_len :: "bytes \<Rightarrow> nat \<Rightarrow> nat \<Rightarrow> bytes \<times> nat" where
  "write_len bs p remainLen =
     (let byte = remainLen mod 128;
          r = js_shr remainLen 7;
          byte = (if r > 0 then byte OR 128 else byte);
          bs = store bs p byte
      in if r > 0 then write_len bs (p + 1) (nat r) else (bs, p + 1))"
  by pat_completeness auto

termination write_len
proof (relation "measure (\<lambda>(bs, p, n). n)")
  show "wf (measure (\<lambda>(bs, p, n). n))"
    by simp
next
  fix bs :: bytes and p remainLen byte :: nat and r :: int and byte' :: nat and bs' :: bytes
  assume r: "r = js_shr remainLen 7" and pos: "0 < r"
  define w where "w = remainLen mod 2 ^ 32"
  have wn: "w \<le> remainLen"
    by (simp add: w_def)
  have "nat r < remainLen"
  proof (cases "w < 2 ^ 31")
    case True
    then have "r = int w div 128"
      by (simp add: r js_shr_def w_def Let_def)
    with pos wn show ?thesis
      by linarith
  next
    case False
    have "w < 2 ^ 32"
      by (simp add: w_def)
    then have "int w - 2 ^ 32 < 0"
      by simp
    then have "(int w - 2 ^ 32) div 128 < 0"
      by linarith
    with False pos show ?thesis
      by (simp add: r js_shr_def w_def Let_def)
  qed
  then show "((bs', p + 1, nat r), bs, p, remainLen) \<in> measure (\<lambda>(bs, p, n). n)"
    by simp
qed

declare write_len.simps [simp del]

text \<open>The two \<open>for\<close> loops that copy the variable header and the payload.\<close>

fun copy_in :: "bytes \<Rightarrow> nat \<Rightarrow> nat list \<Rightarrow> bytes \<times> nat" where
  "copy_in bs p [] = (bs, p)"
| "copy_in bs p (x # xs) = copy_in (store bs p x) (p + 1) xs"

definition buildPacket :: "nat \<Rightarrow> nat \<Rightarrow> nat list option \<Rightarrow> nat list option \<Rightarrow> bytes" where
  "buildPacket type flags header payload =
     (let remainLen = (case header of Some h \<Rightarrow> length h | None \<Rightarrow> 0)
                    + (case payload of Some q \<Rightarrow> length q | None \<Rightarrow> 0);
          bs = replicate (4 + remainLen) 0;
          p = 0;
          bs = store bs p (push_bit 4 type OR (flags AND 15));
          p = p + 1;
          (bs, p) = write_len bs p remainLen;
          (bs, p) = (case header of Some h \<Rightarrow> copy_in bs p h | None \<Rightarrow> (bs, p));
          (bs, p) = (case payload of Some q \<Rightarrow> copy_in bs p q | None \<Rightarrow> (bs, p))
      in take p bs)"

subsection \<open>Integers and strings on the wire\<close>

definition ntob :: "nat \<Rightarrow> nat list" where
  "ntob number = [drop_bit 8 number AND 255, number AND 255]"

definition bton :: "bytes \<Rightarrow> nat" where
  "bton data = push_bit 8 (num (idx data 0)) OR num (idx data 1)"

definition stob :: "jsstring \<Rightarrow> nat list" where
  "stob string = map (\<lambda>c. c) string"

definition stolpb :: "jsstring \<Rightarrow> nat list" where
  "stolpb string = (let prefix = ntob (length string); bs = stob string in prefix @ bs)"

subsection \<open>The client\<close>

text \<open>
  What the client does to the outside is recorded, in order, in a trace: a buffer handed
  to \<open>ws.send\<close>, an event emitted to the application, a call of a callback that the
  application passed to \<open>publish\<close>, \<open>subscribe\<close> or \<open>unsubscribe\<close>. An application
  callback is known by a number. What the socket, a listener or an application callback
  does in turn (a \<open>send\<close> on a closed socket, an \<open>error\<close> event that nobody listens to) is
  outside the model.
\<close>

type_synonym ucb = nat

datatype sub_topic = TopicString jsstring | TopicObject jsstring nat

datatype jsval = Undefined | Number nat | Bytes bytes

datatype effect =
    Send bytes
  | Emit_connect jsval
  | Emit_error string
  | Emit_message jsstring jsstring
  | Emit_close
  | Call ucb
  | Call_granted ucb "(sub_topic \<times> nat option) list"

text \<open>
  The four closures that the client stores in \<open>_callbacks\<close>: the one of \<open>_connect\<close>, and
  those of \<open>publish\<close>, \<open>subscribe\<close> (which keeps \<open>topics\<close>) and \<open>unsubscribe\<close>, each
  around the application's callback if there is one.
\<close>

datatype callback =
    ConnectCb
  | PublishCb "ucb option"
  | SubscribeCb "sub_topic list" "ucb option"
  | UnsubscribeCb "ucb option"

datatype keep_alive = KeepTrue | KeepNumber nat

datatype error = TypeError | RangeError

record client =
  clientId :: jsstring
  clean :: bool
  keepAlive :: keep_alive
  nextId :: nat
  callbacks :: "nat \<rightharpoonup> callback"
  trace :: "effect list"

record options =
  opt_clientId :: "jsstring option"
  opt_clean :: bool
  opt_keepAlive :: "int option"

text \<open>
  The constructor. \<open>rnd\<close> stands for the eight hexadecimal digits drawn from
  \<open>Math.random()\<close>. An empty string and the number 0 are falsy, as is an absent option.
\<close>

definition truthy_number :: "int option \<Rightarrow> bool" where
  "truthy_number v = (case v of None \<Rightarrow> False | Some n \<Rightarrow> n \<noteq> 0)"

definition Client :: "options \<Rightarrow> jsstring \<Rightarrow> client" where
  "Client opts rnd =
     \<lparr> clientId = (case opt_clientId opts of
                     Some s \<Rightarrow> (if s \<noteq> [] then s else [97, 119, 115, 116, 115, 99, 95] @ rnd)
                   | None \<Rightarrow> [97, 119, 115, 116, 115, 99, 95] @ rnd),
       clean = opt_clean opts,
       keepAlive = (if truthy_number (opt_keepAlive opts) then KeepTrue else KeepNumber 60),
       nextId = 1,
       callbacks = Map.empty,
       trace = [] \<rparr>"

definition emit :: "effect \<Rightarrow> client \<Rightarrow> client" where
  "emit e c = c\<lparr>trace := trace c @ [e]\<rparr>"

text \<open>\<open>ws.onclose = () => this.emit('close')\<close>\<close>

definition ws_onclose :: "client \<Rightarrow> client" where
  "ws_onclose c = emit Emit_close c"

text \<open>
  Calling a stored closure as \<open>callback(null, a, b)\<close>; \<open>callback()\<close> is the call with both
  arguments \<open>undefined\<close>. The result is what the closure emits or calls. Reading
  \<open>response[i]\<close> throws when \<open>response\<close> is \<open>undefined\<close>, and gives \<open>undefined\<close> on a number.
\<close>

definition connect_error_message :: "jsval \<Rightarrow> string" where
  "connect_error_message returnCode =
     (if returnCode = Number 1 then ''Unsupported protocol level''
      else if returnCode = Number 2 then ''Invalid client identifier''
      else if returnCode = Number 3 then ''Service unavailable''
      else if returnCode = Number 4 then ''Malformed username or password''
      else if returnCode = Number 5 then ''Client not authorized''
      else ''Connection failed'')"

definition granted :: "sub_topic list \<Rightarrow> jsval \<Rightarrow> error + (sub_topic \<times> nat option) list" where
  "granted topics response =
     (case response of
        Undefined \<Rightarrow> (if topics = [] then Inr [] else Inl TypeError)
      | Number n \<Rightarrow> Inr (map (\<lambda>t. (t, None)) topics)
      | Bytes r \<Rightarrow> Inr (map (\<lambda>i. (topics ! i, idx r i)) [0..<length topics]))"

fun invoke :: "callback \<Rightarrow> jsval \<Rightarrow> jsval \<Rightarrow> error + effect list" where
  "invoke ConnectCb flags returnCode =
     (if returnCode = Number 0 then Inr [Emit_connect flags]
      else Inr [Emit_error (connect_error_message returnCode)])"
| "invoke (PublishCb cb) a b =
     (case cb of None \<Rightarrow> Inr [] | Some f \<Rightarrow> Inr [Call f])"
| "invoke (SubscribeCb topics cb) response b =
     (case cb of
        None \<Rightarrow> Inr []
      | Some f \<Rightarrow>
          (case granted topics response of
             Inl e \<Rightarrow> Inl e
           | Inr g \<Rightarrow> Inr [Call_granted f g]))"
| "invoke (UnsubscribeCb cb) a b =
     (case cb of None \<Rightarrow> Inr [] | Some f \<Rightarrow> Inr [Call f])"

text \<open>
  \<open>_sendPacket(data, packetId, callback)\<close>. The packet identifier is \<open>None\<close> where the
  source passes \<open>-1\<close> or nothing, the two cases that fail the test \<open>packetId > -1\<close>.
\<close>

definition sendPacket :: "bytes \<Rightarrow> nat option \<Rightarrow> callback option \<Rightarrow> client \<Rightarrow> error + client" where
  "sendPacket data packetId callback c =
     (let c = emit (Send data) c
      in case callback of
           None \<Rightarrow> Inr c
         | Some cb \<Rightarrow>
             (case packetId of
                Some i \<Rightarrow> Inr (c\<lparr>callbacks := (callbacks c)(i \<mapsto> cb)\<rparr>)
              | None \<Rightarrow>
                  (case invoke cb Undefined Undefined of
                     Inl e \<Rightarrow> Inl e
                   | Inr es \<Rightarrow> Inr (c\<lparr>trace := trace c @ es\<rparr>))))"

definition handleAck :: "bytes \<Rightarrow> client \<Rightarrow> error + client" where
  "handleAck data c =
     (let packetId = bton (slice data 0 2)
      in case callbacks c packetId of
           None \<Rightarrow> Inr c
         | Some cb \<Rightarrow>
             (let response = slice_from data 2
              in case invoke cb (Bytes response) Undefined of
                   Inl e \<Rightarrow> Inl e
                 | Inr es \<Rightarrow>
                     Inr (c\<lparr>trace := trace c @ es,
                            callbacks := (callbacks c)(packetId := None)\<rparr>)))"

text \<open>
  The \<open>do ... while\<close> loop of \<open>_receivePacket\<close> that reads the remaining length. A read
  past the end of the buffer gives \<open>undefined\<close>, whose bits are all 0, so the loop stops there.
  \<open>remainLen\<close> and \<open>m\<close> are doubles: from the 148th length byte on \<open>m\<close> is \<open>Infinity\<close>.
\<close>

function read_len :: "bytes \<Rightarrow> nat \<Rightarrow> jsnum \<Rightarrow> jsnum \<Rightarrow> jsnum \<times> nat" where
  "read_len data p remainLen m =
     (let byte = idx data p;
          remainLen = js_add remainLen (js_mul (Finite (num byte AND 127)) m);
          m = js_mul m (Finite 128)
      in if (num byte AND 128) \<noteq> 0 then read_len data (p + 1) remainLen m
         else (remainLen, p + 1))"
  by pat_completeness auto
termination
  by (relation "measure (\<lambda>(data, p, remainLen, m). length data - p)")
     (auto simp: idx_def num_def split: if_splits)

declare read_len.simps [simp del]

definition jsidx :: "bytes \<Rightarrow> nat \<Rightarrow> jsval" where
  "jsidx data i = (case idx data i of None \<Rightarrow> Undefined | Some b \<Rightarrow> Number b)"

text \<open>
  \<open>String.fromCharCode.apply(null, xs)\<close> passes every element of \<open>xs\<close> as an argument of its
  own and throws a \<open>RangeError\<close> when the engine does not take that many. How many it takes
  depends on the engine and on the stack left at the call; \<open>lim\<close> stands for that number.
  Only a PUBLISH packet reaches these calls; where a statement below is about one other
  packet and has to name a number, 65535 is written for \<open>lim\<close>.
\<close>

definition fromCharCode_apply :: "nat \<Rightarrow> bytes \<Rightarrow> error + jsstring" where
  "fromCharCode_apply lim xs = (if length xs \<le> lim then Inr xs else Inl RangeError)"

text \<open>
  \<open>_receivePacket(data)\<close>, the handler of the socket's \<open>message\<close> event, with \<open>lim\<close> as above.
\<close>

definition receivePacket :: "nat \<Rightarrow> nat list \<Rightarrow> client \<Rightarrow> error + client" where
  "receivePacket lim data0 c =
     (let data = Uint8Array data0;
          type = drop_bit 4 (num (idx data 0));
          flags = num (idx data 0) AND 15;
          (remainLen, p) = read_len data 1 (Finite 0) (Finite 1);
          data = slice_to data p (js_add (Finite p) remainLen)
      in if type = PACKET_TYPE_CONNACK then
           (let connackFlags = jsidx data 0;
                returnCode = jsidx data 1
            in case callbacks c 0 of
                 None \<Rightarrow> Inl TypeError
               | Some cb \<Rightarrow>
                   (case invoke cb connackFlags returnCode of
                      Inl e \<Rightarrow> Inl e
                    | Inr es \<Rightarrow> Inr (c\<lparr>trace := trace c @ es\<rparr>)))
         else if type = PACKET_TYPE_PUBLISH then
           (let qos = drop_bit 1 flags AND 3;
                n = bton data;
                p = 2
            in case fromCharCode_apply lim (slice data p (p + n)) of
                 Inl e \<Rightarrow> Inl e
               | Inr topic \<Rightarrow>
                   (let p = p + n;
                        packetId = (if qos > 0 then Some (bton (slice data p (p + 2))) else None);
                        p = (if qos > 0 then p + 2 else p)
                    in case fromCharCode_apply lim (slice_to data p remainLen) of
                         Inl e \<Rightarrow> Inl e
                       | Inr payload \<Rightarrow>
                           (let c = emit (Emit_message topic payload) c
                            in if qos = 1 then
                                 sendPacket
                                   (buildPacket PACKET_TYPE_PUBACK 0 (Some (ntob (the packetId))) None)
                                   None None c
                               else if qos = 2 then
                                 sendPacket (buildPacket PACKET_TYPE_PUBREC 0 (Some data) None)
                                   None None c
                               else Inr c)))
         else if type = PACKET_TYPE_PUBACK \<or> type = PACKET_TYPE_PUBCOMP
               \<or> type = PACKET_TYPE_SUBACK \<or> type = PACKET_TYPE_UNSUBACK then
           handleAck data c
         else if type = PACKET_TYPE_PUBREC then
           sendPacket (buildPacket PACKET_TYPE_PUBREL 0 (Some data) None) None None c
         else Inr c)"

text \<open>
  \<open>_connect\<close>, run when the socket opens. In \<open>this._clean | CONNECT_FLAG_WILL\<close> and in
  \<open>ntob(this._keepAlive)\<close> the bitwise operators read \<open>true\<close> as 1 and \<open>false\<close> as 0.
\<close>

definition keep_alive_number :: "keep_alive \<Rightarrow> nat" where
  "keep_alive_number k = (case k of KeepTrue \<Rightarrow> 1 | KeepNumber n \<Rightarrow> n)"

definition connect_header :: "client \<Rightarrow> nat list" where
  "connect_header c =
     stolpb MQTT_PROTOCOL_NAME
       @ [MQTT_PROTOCOL_LEVEL, of_bool (clean c) OR CONNECT_FLAG_WILL]
       @ ntob (keep_alive_number (keepAlive c))"

definition connect :: "client \<Rightarrow> error + client" where
  "connect c =
     (let header = connect_header c;
          payload = stolpb (clientId c);
          packet = buildPacket PACKET_TYPE_CONNECT 0 (Some header) (Some payload)
      in sendPacket packet (Some 0) (Some ConnectCb) c)"

text \<open>
  \<open>publish(topic, message, options, callback)\<close> with a string for \<open>message\<close>; \<open>options\<close> is
  a function, a number or an object with the fields \<open>dup\<close>, \<open>qos\<close> and \<open>remain\<close> (an absent
  \<open>dup\<close> or \<open>remain\<close> is read as 0 by the bitwise operators, like \<open>false\<close>). The form without
  a message, which moves the arguments one place, is left out. An empty message is falsy,
  so no payload is passed for it.
\<close>

datatype publish_options = OptFunction ucb | OptNumber nat | OptObject bool nat bool

definition publish ::
  "jsstring \<Rightarrow> jsstring \<Rightarrow> publish_options \<Rightarrow> ucb option \<Rightarrow> client \<Rightarrow> error + client" where
  "publish topic message opts callback0 c =
     (let (dup, qos, remain, callback) =
            (case opts of
               OptFunction f \<Rightarrow> (False, 0, False, Some f)
             | OptNumber q \<Rightarrow> (False, q, False, callback0)
             | OptObject d q r \<Rightarrow> (d, q, r, callback0));
          flags = push_bit 3 (of_bool dup) OR push_bit 1 (qos AND 3) OR of_bool remain;
          packetId = (if qos > 0 then Some (nextId c) else None);
          c = (if qos > 0 then c\<lparr>nextId := nextId c + 1\<rparr> else c);
          header = stolpb topic;
          header = (case packetId of Some i \<Rightarrow> header @ ntob i | None \<Rightarrow> header);
          payload = (if message \<noteq> [] then Some (stob message) else None);
          packet = buildPacket PACKET_TYPE_PUBLISH flags (Some header) payload
      in sendPacket packet packetId (Some (PublishCb callback)) c)"

text \<open>
  \<open>subscribe(topics, qos, callback)\<close> and \<open>unsubscribe(topics, callback)\<close>: \<open>topics\<close> is one
  string or a list, \<open>qos\<close> a number or, in place of the callback, a function.
\<close>

datatype 'a topics_arg = One jsstring | Several "'a list"

datatype qos_arg = QosFunction ucb | QosNumber nat

definition subscribe ::
  "sub_topic topics_arg \<Rightarrow> qos_arg \<Rightarrow> ucb option \<Rightarrow> client \<Rightarrow> error + client" where
  "subscribe topics0 qos0 callback0 c =
     (let topics = (case topics0 of One s \<Rightarrow> [TopicString s] | Several ts \<Rightarrow> ts);
          (qos, callback) =
            (case qos0 of QosFunction f \<Rightarrow> (0, Some f) | QosNumber q \<Rightarrow> (q, callback0));
          flags = qos AND 3;
          packetId = nextId c;
          c = c\<lparr>nextId := nextId c + 1\<rparr>;
          payload =
            foldl (\<lambda>data topic.
                     case topic of
                       TopicObject t q \<Rightarrow> data @ stolpb t @ [q AND 3]
                     | TopicString t \<Rightarrow> data @ stolpb t @ [flags]) [] topics;
          packet = buildPacket PACKET_TYPE_SUBSCRIBE 2 (Some (ntob packetId)) (Some payload)
      in sendPacket packet (Some packetId) (Some (SubscribeCb topics callback)) c)"

definition unsubscribe :: "jsstring topics_arg \<Rightarrow> ucb option \<Rightarrow> client \<Rightarrow> error + client" where
  "unsubscribe topics0 callback c =
     (let topics = (case topics0 of One s \<Rightarrow> [s] | Several ts \<Rightarrow> ts);
          packetId = nextId c;
          c = c\<lparr>nextId := nextId c + 1\<rparr>;
          payload = foldl (\<lambda>data topic. data @ stolpb topic) [] topics;
          packet = buildPacket PACKET_TYPE_UNSUBSCRIBE 2 (Some (ntob packetId)) (Some payload)
      in sendPacket packet (Some packetId) (Some (UnsubscribeCb callback)) c)"

definition ping :: "client \<Rightarrow> error + client" where
  "ping c = sendPacket (buildPacket PACKET_TYPE_PINGREQ 0 None None) None None c"

definition disconnect :: "client \<Rightarrow> error + client" where
  "disconnect c = sendPacket (buildPacket PACKET_TYPE_DISCONNECT 0 None None) None None c"

subsection \<open>The codec as the specification words it\<close>

text \<open>
  The specification (4.1) says that the remaining length is encoded by repeatedly taking
  \<open>n mod 128\<close> and setting the continuation bit \<open>0x80\<close> on every byte except the last.
  \<open>encodeRemainingLength\<close> follows these words; \<open>write_len\<close> above is the loop of the
  source, and \<open>write_len_copy_in\<close> below relates the two.
\<close>

fun encodeRemainingLength :: "nat \<Rightarrow> nat list" where
  "encodeRemainingLength n =
     (if n div 128 = 0 then [n mod 128]
      else (n mod 128 + 128) # encodeRemainingLength (n div 128))"

declare encodeRemainingLength.simps [simp del]

text \<open>An absent variable header or payload contributes no bytes.\<close>

definition opt_list :: "'a list option \<Rightarrow> 'a list" where
  "opt_list v = (case v of None \<Rightarrow> [] | Some xs \<Rightarrow> xs)"

text \<open>The first byte of a packet, as \<open>buildPacket\<close> stores it.\<close>

definition header_byte :: "nat \<Rightarrow> nat \<Rightarrow> nat" where
  "header_byte type flags = (push_bit 4 type OR (flags AND 15)) mod 256"

subsection \<open>Packets and states that the statements below speak of\<close>

text \<open>
  A packet of the given type that carries the two-byte packet identifier \<open>j\<close> as its
  variable header and nothing else, which is how PUBACK, PUBREC, PUBREL, PUBCOMP and
  UNSUBACK look on the wire.
\<close>

definition ack :: "nat \<Rightarrow> nat \<Rightarrow> bytes" where
  "ack type j = buildPacket type 0 (Some (ntob j)) None"

text \<open>One step after another; an exception ends the run.\<close>

definition andThen :: "error + client \<Rightarrow> (client \<Rightarrow> error + client) \<Rightarrow> error + client" where
  "andThen r f = (case r of Inl e \<Rightarrow> Inl e | Inr c \<Rightarrow> f c)"

text \<open>
  A client made with the identifier \<open>"c"\<close>, a clean session and no keep-alive option, and
  the same client after \<open>publish("a/b", "hi", {qos: 1}, f)\<close> and after
  \<open>publish("a/b", "hi", {qos: 2}, f)\<close>, where the callback \<open>f\<close> bears the number 7.
\<close>

definition example_client :: client where
  "example_client = Client \<lparr>opt_clientId = Some [99], opt_clean = True, opt_keepAlive = None\<rparr> []"

definition qos1_published :: client where
  "qos1_published =
     \<lparr> clientId = [99], clean = True, keepAlive = KeepNumber 60, nextId = 2,
       callbacks = [1 \<mapsto> PublishCb (Some 7)],
       trace = [Send [50, 9, 0, 3, 97, 47, 98, 0, 1, 104, 105]] \<rparr>"

definition qos2_published :: client where
  "qos2_published =
     \<lparr> clientId = [99], clean = True, keepAlive = KeepNumber 60, nextId = 2,
       callbacks = [1 \<mapsto> PublishCb (Some 7)],
       trace = [Send [52, 9, 0, 3, 97, 47, 98, 0, 1, 104, 105]] \<rparr>"

text \<open>
  The example client after \<open>_connect\<close>; after the QoS 2 publish and the PUBREL that
  answers a PUBREC; after two QoS 1 publishes, with the completions of identifiers 1 and 2 pending; and after the
  QoS 1 publish has been acknowledged; and a connected client whose counter had reached
  65536 after the same QoS 1 publish.
\<close>

definition example_connected :: client where
  "example_connected =
     \<lparr> clientId = [99], clean = True, keepAlive = KeepNumber 60, nextId = 1,
       callbacks = [0 \<mapsto> ConnectCb],
       trace = [Send [16, 13, 0, 4, 77, 81, 84, 84, 4, 3, 0, 60, 0, 1, 99]] \<rparr>"

definition qos2_released :: client where
  "qos2_released =
     \<lparr> clientId = [99], clean = True, keepAlive = KeepNumber 60, nextId = 2,
       callbacks = [1 \<mapsto> PublishCb (Some 7)],
       trace = [Send [52, 9, 0, 3, 97, 47, 98, 0, 1, 104, 105], Send [96, 2, 0, 1]] \<rparr>"

definition two_pending :: client where
  "two_pending =
     \<lparr> clientId = [99], clean = True, keepAlive = KeepNumber 60, nextId = 3,
       callbacks = [1 \<mapsto> PublishCb (Some 7), 2 \<mapsto> PublishCb (Some 8)],
       trace = [Send [50, 9, 0, 3, 97, 47, 98, 0, 1, 104, 105],
                Send [50, 9, 0, 3, 97, 47, 98, 0, 2, 104, 105]] \<rparr>"

definition publish_65536 :: client where
  "publish_65536 =
     \<lparr> clientId = [99], clean = True, keepAlive = KeepNumber 60, nextId = 65537,
       callbacks = [0 \<mapsto> ConnectCb, 65536 \<mapsto> PublishCb (Some 7)],
       trace = [Send [16, 13, 0, 4, 77, 81, 84, 84, 4, 3, 0, 60, 0, 1, 99],
                Send [50, 9, 0, 3, 97, 47, 98, 0, 0, 104, 105]] \<rparr>"


section \<open>Bits and bytes\<close>

lemma and_127: "(n::nat) AND 127 = n mod 128"
  using take_bit_eq_mask[of 7 n] by (simp add: take_bit_eq_mod mask_eq_exp_minus_1)

lemma and_255: "(n::nat) AND 255 = n mod 256"
  using take_bit_eq_mask[of 8 n] by (simp add: take_bit_eq_mod mask_eq_exp_minus_1)

lemma and_15: "(n::nat) AND 15 = n mod 16"
  using take_bit_eq_mask[of 4 n] by (simp add: take_bit_eq_mod mask_eq_exp_minus_1)

lemma and_3: "(n::nat) AND 3 = n mod 4"
  using take_bit_eq_mask[of 2 n] by (simp add: take_bit_eq_mod mask_eq_exp_minus_1)

lemma and_128_eq_0: "((n::nat) AND 128 = 0) = even (n div 128)"
  using and_exp_eq_0_iff_not_bit[of n 7] by (simp add: bit_iff_odd)

lemma push_bit_or: "b < 2 ^ k \<Longrightarrow> push_bit k (a::nat) OR b = a * 2 ^ k + b"
proof -
  assume b: "b < 2 ^ k"
  then have tb: "take_bit k b = b"
    by (simp add: take_bit_nat_eq_self)
  have "push_bit k a + take_bit k b = push_bit k a OR take_bit k b"
    by (rule disjunctive_add) (auto simp: bit_push_bit_iff bit_take_bit_iff)
  then show ?thesis
    by (simp add: tb push_bit_eq_mult)
qed

lemma or_128: "b < 128 \<Longrightarrow> (b::nat) OR 128 = b + 128"
  using push_bit_or[of b 7 1] by (simp add: or.commute)

lemma js_shr7: "n < 2 ^ 31 \<Longrightarrow> js_shr n 7 = int (n div 128)"
  by (simp add: js_shr_def Let_def zdiv_int)

lemma store_eq: "store bs p v = (if p < length bs then bs[p := v mod 256] else bs)"
  by (simp add: store_def)

lemma length_store [simp]: "length (store bs p v) = length bs"
  by (simp add: store_def)

lemma copy_in_eq:
  "copy_in bs p xs =
     (take (length bs) (take p bs @ map (\<lambda>x. x mod 256) xs @ drop (p + length xs) bs),
      p + length xs)"
proof (induction xs arbitrary: bs p)
  case Nil
  show ?case by simp
next
  case (Cons x xs)
  show ?case
  proof (cases "p < length bs")
    case True
    then have "take (Suc p) (bs[p := x mod 256]) = take p bs @ [x mod 256]"
      by (simp add: take_Suc_conv_app_nth)
    with True show ?thesis
      by (simp add: Cons.IH store_def)
  next
    case False
    then show ?thesis
      by (simp add: Cons.IH store_def)
  qed
qed

lemma write_len_last: "n < 128 \<Longrightarrow> write_len bs p n = (store bs p n, p + 1)"
  by (subst write_len.simps) (simp add: js_shr7 Let_def)

lemma write_len_more:
  "128 \<le> n \<Longrightarrow> n < 2 ^ 31 \<Longrightarrow>
   write_len bs p n = write_len (store bs p (n mod 128 + 128)) (p + 1) (n div 128)"
  by (subst write_len.simps) (simp add: js_shr7 Let_def or_128 div_greater_zero_iff)

lemma write_len_copy_in:
  "n < 2 ^ 31 \<Longrightarrow> write_len bs p n = copy_in bs p (encodeRemainingLength n)"
proof (induction n arbitrary: bs p rule: encodeRemainingLength.induct)
  case (1 n)
  show ?case
  proof (cases "n < 128")
    case True
    then show ?thesis
      by (simp add: write_len_last encodeRemainingLength.simps[of n])
  next
    case False
    then have d: "n div 128 \<noteq> 0" by simp
    have "n div 128 < 2 ^ 31" using "1.prems" by simp
    with False d "1.prems" show ?thesis
      by (simp add: write_len_more "1.IH" encodeRemainingLength.simps[of n])
  qed
qed


lemma round_double_small [simp]: "n < 2 ^ 53 \<Longrightarrow> round_double n = Finite n"
  by (simp add: round_double_def)

lemma slice_to_Finite [simp]: "slice_to xs a (Finite b) = slice xs a b"
  by (simp add: slice_to_def)

lemma read_len_stop:
  "num (idx data p) AND 128 = 0 \<Longrightarrow>
   read_len data p r m = (js_add r (js_mul (Finite (num (idx data p) AND 127)) m), p + 1)"
  by (subst read_len.simps) (simp add: Let_def)

lemma read_len_go:
  "num (idx data p) AND 128 \<noteq> 0 \<Longrightarrow>
   read_len data p r m =
     read_len data (p + 1) (js_add r (js_mul (Finite (num (idx data p) AND 127)) m))
       (js_mul m (Finite 128))"
  by (subst read_len.simps) (simp add: Let_def)

lemma idx_append_mid [simp]: "idx (pre @ x # rest) (length pre) = Some x"
  by (simp add: idx_def)

text \<open>
  While the sum stays below \<open>2 ^ 53\<close> no step of the reading loop rounds, and the loop
  undoes the encoding.
\<close>

lemma read_len_encode:
  "r + n * m < 2 ^ 53 \<Longrightarrow>
   read_len (pre @ encodeRemainingLength n @ rest) (length pre) (Finite r) (Finite m) =
     (Finite (r + n * m), length pre + length (encodeRemainingLength n))"
proof (induction n arbitrary: pre r m rule: encodeRemainingLength.induct)
  case (1 n)
  note bound = "1.prems"
  show ?case
  proof (cases "n < 128")
    case True
    have nm: "n * m < 2 ^ 53"
      using bound by simp
    have st: "num (idx (pre @ n # rest) (length pre)) AND 128 = 0"
      using True by (simp add: num_def and_128_eq_0)
    have "read_len (pre @ n # rest) (length pre) (Finite r) (Finite m) =
        (js_add (Finite r) (js_mul (Finite (num (idx (pre @ n # rest) (length pre)) AND 127))
           (Finite m)), length pre + 1)"
      by (rule read_len_stop[OF st])
    with True bound nm show ?thesis
      by (simp add: encodeRemainingLength.simps[of n] num_def and_127)
  next
    case False
    then have d: "n div 128 \<noteq> 0" by simp
    let ?b = "n mod 128 + 128"
    let ?A = "(n mod 128) * m"
    let ?B = "(n div 128) * (m * 128)"
    have e: "encodeRemainingLength n = ?b # encodeRemainingLength (n div 128)"
      using d by (simp add: encodeRemainingLength.simps[of n])
    have "?b div 128 = 1"
      by simp
    then have odd: "?b AND 128 \<noteq> 0"
      by (simp add: and_128_eq_0)
    have low: "?b AND 127 = n mod 128"
      by (simp add: and_127)
    have S: "r + ?A + ?B = r + n * m"
    proof -
      have "n * m = (n mod 128 + 128 * (n div 128)) * m"
        by simp
      also have "\<dots> = (n mod 128) * m + (128 * (n div 128)) * m"
        by (rule add_mult_distrib)
      also have "(128 * (n div 128)) * m = (n div 128) * (m * 128)"
        by (simp only: mult.commute mult.left_commute)
      finally show ?thesis
        by simp
    qed
    have total: "r + ?A + ?B < 2 ^ 53"
      using bound by (simp only: S)
    have bA: "?A < 2 ^ 53" and bS: "r + ?A < 2 ^ 53"
      using total by simp_all
    have "1 \<le> n div 128"
      using d by simp
    then have "1 * (m * 128) \<le> ?B"
      by (rule mult_le_mono1)
    then have "m * 128 \<le> ?B"
      by (simp only: mult_1)
    with total have bM: "m * 128 < 2 ^ 53"
      by linarith
    have "read_len (pre @ ?b # encodeRemainingLength (n div 128) @ rest) (length pre)
            (Finite r) (Finite m) =
          read_len (pre @ ?b # encodeRemainingLength (n div 128) @ rest) (length pre + 1)
            (js_add (Finite r) (js_mul (Finite
               (num (idx (pre @ ?b # encodeRemainingLength (n div 128) @ rest) (length pre))
                  AND 127)) (Finite m)))
            (js_mul (Finite m) (Finite 128))"
      by (rule read_len_go) (simp add: num_def odd)
    also have "\<dots> = read_len ((pre @ [?b]) @ encodeRemainingLength (n div 128) @ rest)
            (length (pre @ [?b])) (Finite (r + ?A)) (Finite (m * 128))"
      using bA bS bM by (simp add: num_def low)
    also have "\<dots> = (Finite (r + ?A + ?B),
                     length (pre @ [?b]) + length (encodeRemainingLength (n div 128)))"
      using d total by (rule "1.IH")
    finally show ?thesis
      by (simp add: e S)
  qed
qed

lemma length_encode:
  "n < 2 ^ 28 \<Longrightarrow>
   length (encodeRemainingLength n) =
     (if n < 128 then 1 else if n < 16384 then 2 else if n < 2097152 then 3 else 4)"
proof -
  assume n: "n < 2 ^ 28"
  have small: "\<And>k. k < 128 \<Longrightarrow> length (encodeRemainingLength k) = 1"
    by (simp add: encodeRemainingLength.simps)
  have big: "\<And>k. 128 \<le> k \<Longrightarrow>
      length (encodeRemainingLength k) = Suc (length (encodeRemainingLength (k div 128)))"
  proof -
    fix k :: nat
    assume "128 \<le> k"
    then have "k div 128 \<noteq> 0"
      by simp
    then show "length (encodeRemainingLength k) = Suc (length (encodeRemainingLength (k div 128)))"
      by (subst encodeRemainingLength.simps) simp
  qed
  consider "n < 128" | "128 \<le> n" "n < 16384" | "16384 \<le> n" "n < 2097152"
    | "2097152 \<le> n" "n < 268435456"
    using n by fastforce
  then show ?thesis
  proof cases
    case 1
    then show ?thesis by (simp add: small)
  next
    case 2
    then have "n div 128 < 128" by simp
    with 2 show ?thesis by (simp add: small big)
  next
    case 3
    then have a: "128 \<le> n div 128" "n div 128 < 16384" by simp_all
    then have "n div 128 div 128 < 128" by simp
    with 3 a show ?thesis by (simp add: small big)
  next
    case 4
    then have a: "16384 \<le> n div 128" "n div 128 < 2097152" by simp_all
    then have a': "128 \<le> n div 128" by simp
    from a have b: "128 \<le> n div 128 div 128" "n div 128 div 128 < 16384" by simp_all
    then have "n div 128 div 128 div 128 < 128" by simp
    with 4 a a' b show ?thesis by (simp add: small big)
  qed
qed


lemma encode_bytes: "b \<in> set (encodeRemainingLength n) \<Longrightarrow> b < 256"
proof (induction n rule: encodeRemainingLength.induct)
  case (1 n)
  show ?case
  proof (cases "n div 128 = 0")
    case True
    with "1.prems" show ?thesis
      by (simp add: encodeRemainingLength.simps[of n])
  next
    case False
    with "1.prems" have "b = n mod 128 + 128 \<or> b \<in> set (encodeRemainingLength (n div 128))"
      by (simp add: encodeRemainingLength.simps[of n])
    then show ?thesis
    proof
      assume "b = n mod 128 + 128"
      moreover have "n mod 128 < 128" by simp
      ultimately show ?thesis by linarith
    next
      assume "b \<in> set (encodeRemainingLength (n div 128))"
      with False show ?thesis by (rule "1.IH")
    qed
  qed
qed

lemma map_mod_encode: "map (\<lambda>x. x mod 256) (encodeRemainingLength n) = encodeRemainingLength n"
  by (rule map_idI) (simp add: encode_bytes)

lemma copy_in_append:
  "copy_in bs p (xs @ ys) = (case copy_in bs p xs of (bs', p') \<Rightarrow> copy_in bs' p' ys)"
  by (induction xs arbitrary: bs p) simp_all

lemma store_copy_in: "(store bs p v, p + 1) = copy_in bs p [v]"
  by simp

lemma buildPacket_copy_in:
  assumes "length (opt_list header) + length (opt_list payload) < 2 ^ 31"
  shows "buildPacket type flags header payload =
     (case copy_in (replicate (4 + (length (opt_list header) + length (opt_list payload))) 0) 0
             ((push_bit 4 type OR (flags AND 15))
                # encodeRemainingLength (length (opt_list header) + length (opt_list payload))
                @ opt_list header @ opt_list payload)
      of (bs, p) \<Rightarrow> take p bs)"
proof -
  let ?n = "length (opt_list header) + length (opt_list payload)"
  have n: "(case header of Some h \<Rightarrow> length h | None \<Rightarrow> 0)
         + (case payload of Some q \<Rightarrow> length q | None \<Rightarrow> 0) = ?n"
    by (simp add: opt_list_def split: option.splits)
  have h: "\<And>bs p. (case header of Some h \<Rightarrow> copy_in bs p h | None \<Rightarrow> (bs, p))
             = copy_in bs p (opt_list header)"
    by (simp add: opt_list_def split: option.splits)
  have q: "\<And>bs p. (case payload of Some q \<Rightarrow> copy_in bs p q | None \<Rightarrow> (bs, p))
             = copy_in bs p (opt_list payload)"
    by (simp add: opt_list_def split: option.splits)
  show ?thesis
    unfolding buildPacket_def n h q Let_def
    using assms
    by (simp add: write_len_copy_in copy_in_append split: prod.splits)
qed

lemma take_copy_in:
  "(case copy_in bs 0 xs of (bs', p) \<Rightarrow> take p bs') = take (length bs) (map (\<lambda>x. x mod 256) xs)"
proof -
  let ?W = "map (\<lambda>x. x mod 256) xs"
  let ?D = "drop (length xs) bs"
  have "take (length xs) (take (length bs) (?W @ ?D)) = take (length bs) (take (length ?W) (?W @ ?D))"
    by (simp only: take_take length_map min.commute)
  also have "\<dots> = take (length bs) ?W"
    by (simp only: take_append diff_self_eq_0 take_0 append_Nil2 take_all order_refl)
  finally show ?thesis
    by (simp add: copy_in_eq)
qed

lemma buildPacket_eq:
  assumes "length (opt_list header) + length (opt_list payload) < 2 ^ 31"
  shows "buildPacket type flags header payload =
     take (4 + (length (opt_list header) + length (opt_list payload)))
       (header_byte type flags
          # encodeRemainingLength (length (opt_list header) + length (opt_list payload))
          @ map (\<lambda>x. x mod 256) (opt_list header)
          @ map (\<lambda>x. x mod 256) (opt_list payload))"
  unfolding buildPacket_copy_in[OF assms] take_copy_in
  by (simp add: header_byte_def map_mod_encode)


lemma encode_small: "n < 128 \<Longrightarrow> encodeRemainingLength n = [n]"
  by (simp add: encodeRemainingLength.simps[of n])

lemma encode_big:
  "128 \<le> n \<Longrightarrow> encodeRemainingLength n = (n mod 128 + 128) # encodeRemainingLength (n div 128)"
proof -
  assume "128 \<le> n"
  then have "n div 128 \<noteq> 0"
    by simp
  then show ?thesis
    by (simp add: encodeRemainingLength.simps[of n])
qed

lemma take_prefix: "length xs \<le> k \<Longrightarrow> take k (xs @ ys) = xs @ take (k - length xs) ys"
  by simp

lemma buildPacket_read_len:
  assumes "length (opt_list header) + length (opt_list payload) < 2 ^ 28"
  shows "read_len (buildPacket type flags header payload) 1 (Finite 0) (Finite 1) =
           (Finite (length (opt_list header) + length (opt_list payload)),
            1 + length (encodeRemainingLength (length (opt_list header) + length (opt_list payload))))"
proof -
  let ?n = "length (opt_list header) + length (opt_list payload)"
  let ?e = "encodeRemainingLength ?n"
  let ?rest = "map (\<lambda>x. x mod 256) (opt_list header) @ map (\<lambda>x. x mod 256) (opt_list payload)"
  have n31: "?n < 2 ^ 31"
    using assms by simp
  have len: "length ?e = (if ?n < 128 then 1 else if ?n < 16384 then 2 else if ?n < 2097152 then 3 else 4)"
    by (rule length_encode[OF assms])
  then have le: "1 + length ?e \<le> 4 + ?n"
    by (simp split: if_splits)
  define R where "R = ?rest"
  have "buildPacket type flags header payload = take (4 + ?n) ((header_byte type flags # ?e) @ R)"
    by (simp add: buildPacket_eq[OF n31] R_def)
  also have "\<dots> = (header_byte type flags # ?e) @ take (4 + ?n - length (header_byte type flags # ?e)) R"
    by (rule take_prefix) (use le in simp)
  also have "\<dots> = [header_byte type flags] @ ?e @ take (4 + ?n - (1 + length ?e)) R"
    by simp
  finally have "buildPacket type flags header payload
        = [header_byte type flags] @ ?e @ take (4 + ?n - (1 + length ?e)) R" .
  moreover have "read_len ([header_byte type flags] @ ?e @ take (4 + ?n - (1 + length ?e)) R)
                   (length [header_byte type flags]) (Finite 0) (Finite 1)
                 = (Finite (0 + ?n * 1), length [header_byte type flags] + length ?e)"
    by (rule read_len_encode) (use assms in simp)
  ultimately show ?thesis
    by simp
qed

lemma length_buildPacket:
  assumes "length (opt_list header) + length (opt_list payload) < 2 ^ 31"
  shows "length (buildPacket type flags header payload) =
           min (4 + (length (opt_list header) + length (opt_list payload)))
               (1 + length (encodeRemainingLength (length (opt_list header) + length (opt_list payload)))
                  + (length (opt_list header) + length (opt_list payload)))"
  by (simp add: buildPacket_eq[OF assms])

lemma buildPacket_layout:
  assumes "length (opt_list header) + length (opt_list payload) < 2097152"
  shows "buildPacket type flags header payload =
           header_byte type flags
             # encodeRemainingLength (length (opt_list header) + length (opt_list payload))
             @ map (\<lambda>x. x mod 256) (opt_list header)
             @ map (\<lambda>x. x mod 256) (opt_list payload)"
proof -
  let ?n = "length (opt_list header) + length (opt_list payload)"
  have n28: "?n < 2 ^ 28" and n31: "?n < 2 ^ 31"
    using assms by simp_all
  have "length (encodeRemainingLength ?n) \<le> 3"
    using assms by (simp add: length_encode[OF n28])
  then show ?thesis
    by (simp add: buildPacket_eq[OF n31])
qed

section \<open>Evaluating the client\<close>

lemma header_byte_eq: "header_byte type flags = (type * 16 + flags mod 16) mod 256"
  using push_bit_or[of "flags mod 16" 4 type] by (simp add: header_byte_def and_15)

lemma ntob_eq: "ntob n = [n div 256 mod 256, n mod 256]"
  by (simp add: ntob_def and_255 drop_bit_eq_div)


lemma bton_Cons2: "b1 < 256 \<Longrightarrow> bton (b0 # b1 # rest) = b0 * 256 + b1"
  using push_bit_or[of b1 8 b0] by (simp add: bton_def idx_def num_def)

lemma bton_ntob: "j < 65536 \<Longrightarrow> bton (ntob j) = j"
  by (simp add: ntob_eq bton_Cons2)

lemma Uint8Array_ntob: "Uint8Array (ntob j) = ntob j"
  by (simp add: ntob_eq Uint8Array_def)

lemma read_len_short:
  "b < 128 \<Longrightarrow> read_len (h # b # rest) (Suc 0) (Finite 0) (Finite (Suc 0)) = (Finite b, 2)"
proof -
  assume b: "b < 128"
  have i: "idx (h # b # rest) (Suc 0) = Some b"
    by (simp add: idx_def)
  have "num (idx (h # b # rest) (Suc 0)) AND 128 = 0"
    using b by (simp add: i num_def and_128_eq_0)
  then have "read_len (h # b # rest) (Suc 0) (Finite 0) (Finite (Suc 0))
      = (js_add (Finite 0) (js_mul (Finite (num (idx (h # b # rest) (Suc 0)) AND 127))
           (Finite (Suc 0))), Suc 0 + 1)"
    by (rule read_len_stop)
  with b show ?thesis
    by (simp add: i num_def and_127)
qed

lemma buildPacket_small:
  assumes "length (opt_list header) + length (opt_list payload) < 128"
  shows "buildPacket type flags header payload =
           header_byte type flags
             # (length (opt_list header) + length (opt_list payload))
             # map (\<lambda>x. x mod 256) (opt_list header)
             @ map (\<lambda>x. x mod 256) (opt_list payload)"
proof -
  have "length (opt_list header) + length (opt_list payload) < 2097152"
    using assms by simp
  then show ?thesis
    using assms by (simp add: buildPacket_layout encode_small)
qed

lemma ack_eq: "ack type j = [type * 16 mod 256, 2, j div 256 mod 256, j mod 256]"
  by (simp add: ack_def buildPacket_small opt_list_def header_byte_eq ntob_eq)

lemma invoke_ConnectCb:
  "invoke ConnectCb flags rc =
     Inr [if rc = Number 0 then Emit_connect flags else Emit_error (connect_error_message rc)]"
  by simp

lemma invoke_Bytes: "\<exists>es. invoke cb (Bytes r) b = Inr es"
  by (cases cb) (auto simp: granted_def split: option.splits)

lemma handleAck_ntob:
  assumes "j < 65536"
  shows "handleAck (ntob j) c =
     (case callbacks c j of
        None \<Rightarrow> Inr c
      | Some cb \<Rightarrow>
          (case invoke cb (Bytes []) Undefined of
             Inl e \<Rightarrow> Inl e
           | Inr es \<Rightarrow> Inr (c\<lparr>trace := trace c @ es, callbacks := (callbacks c)(j := None)\<rparr>)))"
proof -
  have s: "slice (ntob j) 0 2 = ntob j" "slice_from (ntob j) 2 = []"
    by (simp_all add: slice_def slice_from_def ntob_eq)
  show ?thesis
    unfolding handleAck_def s Let_def bton_ntob[OF assms] ..
qed

lemma receivePacket_ack:
  assumes t: "type = PACKET_TYPE_PUBACK \<or> type = PACKET_TYPE_PUBCOMP
            \<or> type = PACKET_TYPE_SUBACK \<or> type = PACKET_TYPE_UNSUBACK"
  shows "receivePacket lim (ack type j) c = handleAck (ntob j) c"
proof -
  let ?d = "[type * 16, 2, j div 256 mod 256, j mod 256]"
  have a: "ack type j = ?d"
    using t by (auto simp: ack_eq)
  have u: "Uint8Array ?d = ?d"
    using t by (auto simp: Uint8Array_def)
  have ty: "drop_bit 4 (num (idx ?d 0)) = type"
    by (simp add: idx_def num_def drop_bit_eq_div)
  have r: "read_len ?d 1 (Finite 0) (Finite 1) = (Finite 2, 2)"
    by (simp add: read_len_short)
  have s: "slice_to ?d 2 (js_add (Finite 2) (Finite 2)) = ntob j"
    by (simp add: slice_def ntob_eq)
  show ?thesis
    unfolding a receivePacket_def u Let_def ty r prod.case s
    using t by auto
qed

lemma receivePacket_pubrec:
  "receivePacket lim (ack PACKET_TYPE_PUBREC j) c = Inr (emit (Send (ack PACKET_TYPE_PUBREL j)) c)"
proof -
  let ?d = "[80, 2, j div 256 mod 256, j mod 256]"
  have a: "ack PACKET_TYPE_PUBREC j = ?d"
    by (simp add: ack_eq)
  have u: "Uint8Array ?d = ?d"
    by (simp add: Uint8Array_def)
  have ty: "drop_bit 4 (num (idx ?d 0)) = 5"
    by (simp add: idx_def num_def drop_bit_eq_div)
  have r: "read_len ?d 1 (Finite 0) (Finite 1) = (Finite 2, 2)"
    by (simp add: read_len_short)
  have s: "slice_to ?d 2 (js_add (Finite 2) (Finite 2)) = ntob j"
    by (simp add: slice_def ntob_eq)
  show ?thesis
    unfolding a receivePacket_def u Let_def ty r prod.case s
    by (simp add: sendPacket_def ack_def)
qed

lemma publish_qos_pos:
  assumes "0 < qos"
  shows "publish topic message (OptObject dup qos remain) cb c =
     Inr (c\<lparr>nextId := nextId c + 1,
            trace := trace c @
              [Send (buildPacket PACKET_TYPE_PUBLISH
                       (push_bit 3 (of_bool dup) OR push_bit 1 (qos AND 3) OR of_bool remain)
                       (Some (stolpb topic @ ntob (nextId c)))
                       (if message \<noteq> [] then Some (stob message) else None))],
            callbacks := (callbacks c)(nextId c \<mapsto> PublishCb cb)\<rparr>)"
  using assms by (simp add: publish_def sendPacket_def emit_def Let_def)


lemma example_client_eq:
  "example_client =
     \<lparr> clientId = [99], clean = True, keepAlive = KeepNumber 60, nextId = 1,
       callbacks = Map.empty, trace = [] \<rparr>"
  by (simp add: example_client_def Client_def truthy_number_def)

lemma flags_eval:
  "push_bit 3 (of_bool False) OR push_bit 1 ((1::nat) AND 3) OR of_bool False = (2::nat)"
  "push_bit 3 (of_bool False) OR push_bit 1 ((2::nat) AND 3) OR of_bool False = (4::nat)"
  by (simp_all add: and_3)

lemma publish_qos1_example:
  "publish [97, 47, 98] [104, 105] (OptObject False 1 False) (Some 7) example_client
     = Inr qos1_published"
  by (simp add: publish_qos_pos flags_eval example_client_eq qos1_published_def
      buildPacket_small opt_list_def stolpb_def stob_def ntob_eq header_byte_eq)

lemma publish_qos2_example:
  "publish [97, 47, 98] [104, 105] (OptObject False 2 False) (Some 7) example_client
     = Inr qos2_published"
  by (simp add: publish_qos_pos flags_eval example_client_eq qos2_published_def
      buildPacket_small opt_list_def stolpb_def stob_def ntob_eq header_byte_eq)

lemma connect_eq:
  "connect c =
     Inr (c\<lparr>trace := trace c @
              [Send (buildPacket PACKET_TYPE_CONNECT 0 (Some (connect_header c))
                       (Some (stolpb (clientId c))))],
            callbacks := (callbacks c)(0 \<mapsto> ConnectCb)\<rparr>)"
  by (simp add: connect_def sendPacket_def emit_def Let_def)

lemma or_2: "of_bool b OR (2::nat) = (if b then 3 else 2)"
  by simp

lemma connect_example: "connect example_client = Inr example_connected"
  by (simp add: connect_eq example_client_eq example_connected_def connect_header_def
      keep_alive_number_def buildPacket_small opt_list_def stolpb_def stob_def ntob_eq
      header_byte_eq)

lemma receivePacket_connack:
  assumes f: "f < 256" and rc: "rc < 256"
  shows "receivePacket lim [32, 2, f, rc] c =
     (case callbacks c 0 of
        None \<Rightarrow> Inl TypeError
      | Some cb \<Rightarrow>
          (case invoke cb (Number f) (Number rc) of
             Inl e \<Rightarrow> Inl e
           | Inr es \<Rightarrow> Inr (c\<lparr>trace := trace c @ es\<rparr>)))"
proof -
  have u: "Uint8Array [32, 2, f, rc] = [32, 2, f, rc]"
    using f rc by (simp add: Uint8Array_def)
  have t: "drop_bit 4 (num (idx [32, 2, f, rc] 0)) = 2"
    by (simp add: idx_def num_def drop_bit_eq_div)
  have r: "read_len [32, 2, f, rc] 1 (Finite 0) (Finite 1) = (Finite 2, 2)"
    by (simp add: read_len_short)
  have s: "slice_to [32, 2, f, rc] 2 (js_add (Finite 2) (Finite 2)) = [f, rc]"
    by (simp add: slice_def)
  have j: "jsidx [f, rc] 0 = Number f" "jsidx [f, rc] 1 = Number rc"
    by (simp_all add: jsidx_def idx_def)
  show ?thesis
    unfolding receivePacket_def u Let_def t r prod.case s j
    by simp
qed

lemma qos1_publish_answered_with_identifier:
  "receivePacket (Suc lim) [50, 6, 0, 1, 97, 0, 5, 120] example_client
     = Inr (example_client\<lparr>trace := [Emit_message [97] [120], Send [64, 2, 0, 5]]\<rparr>)"
proof -
  let ?d = "[50, 6, 0, 1, 97, 0, 5, 120]"
  let ?b = "[0, 1, 97, 0, 5, 120]"
  have u: "Uint8Array ?d = ?d"
    by (simp add: Uint8Array_def)
  have t: "drop_bit 4 (num (idx ?d 0)) = 3" "num (idx ?d 0) AND 15 = 2"
    by (simp_all add: idx_def num_def drop_bit_eq_div and_15)
  have r: "read_len ?d 1 (Finite 0) (Finite 1) = (Finite 6, 2)"
    by (simp add: read_len_short)
  have s: "slice_to ?d 2 (js_add (Finite 2) (Finite 6)) = ?b"
    by (simp add: slice_def)
  have q: "drop_bit 1 (2::nat) AND 3 = 1"
    by (simp add: drop_bit_eq_div and_3)
  have n: "bton ?b = 1"
    by (simp add: bton_Cons2)
  show ?thesis
    unfolding receivePacket_def u Let_def t r prod.case s q n
    by (simp add: slice_def bton_Cons2 emit_def sendPacket_def buildPacket_small opt_list_def
        header_byte_eq example_client_eq ntob_eq fromCharCode_apply_def)
qed


lemma ack_receive_pending:
  assumes t: "type = PACKET_TYPE_PUBACK \<or> type = PACKET_TYPE_PUBCOMP
            \<or> type = PACKET_TYPE_SUBACK \<or> type = PACKET_TYPE_UNSUBACK"
    and k: "k < 65536"
    and pending: "callbacks c k = Some (PublishCb cb)"
  shows "receivePacket lim (ack type k) c =
     Inr (c\<lparr>trace := trace c @ (case cb of None \<Rightarrow> [] | Some f \<Rightarrow> [Call f]),
            callbacks := (callbacks c)(k := None)\<rparr>)"
  using pending
  by (cases cb) (simp_all add: receivePacket_ack[OF t] handleAck_ntob[OF k])

lemma qos2_released_eq: "qos2_released = emit (Send (ack PACKET_TYPE_PUBREL 1)) qos2_published"
  by (simp add: qos2_released_def qos2_published_def emit_def ack_eq)



lemma sendPacket_plain: "sendPacket data None None c = Inr (emit (Send data) c)"
  by (simp add: sendPacket_def)

lemma handleAck_returns: "\<exists>c'. handleAck data c = Inr c'"
proof (cases "callbacks c (bton (slice data 0 2))")
  case None
  then show ?thesis
    by (simp add: handleAck_def)
next
  case (Some cb)
  obtain es where "invoke cb (Bytes (slice_from data 2)) Undefined = Inr es"
    using invoke_Bytes by blast
  with Some show ?thesis
    by (simp add: handleAck_def)
qed


lemma Client_header:
  "connect_header (Client opts rnd) =
     [0, 4, 77, 81, 84, 84, 4, if opt_clean opts then 3 else 2]
       @ (if truthy_number (opt_keepAlive opts) then [0, 1] else [0, 60])"
  by (simp add: connect_header_def Client_def keep_alive_number_def stolpb_def stob_def ntob_eq)

lemma Uint8Array_bytes: "\<forall>x\<in>set xs. x < 256 \<Longrightarrow> Uint8Array xs = xs"
  by (simp add: Uint8Array_def map_idI)

lemma receivePacket_publish:
  assumes topic: "\<forall>x\<in>set topic. x < 256" and payload: "\<forall>x\<in>set payload. x < 256"
    and j: "j < 65536" and n: "4 + length topic + length payload < 128"
    and q: "q = 1 \<or> q = 2"
    and lim: "length topic \<le> lim" "length payload \<le> lim"
  shows "receivePacket lim
           (buildPacket PACKET_TYPE_PUBLISH (2 * q) (Some (stolpb topic @ ntob j)) (Some payload)) c =
         Inr (emit (Send (if q = 1 then ack PACKET_TYPE_PUBACK j
                          else buildPacket PACKET_TYPE_PUBREC 0
                                 (Some (stolpb topic @ ntob j @ payload)) None))
                (emit (Emit_message topic payload) c))"
proof -
  let ?lt = "length topic"
  let ?body = "ntob ?lt @ topic @ ntob j @ payload"
  let ?n = "4 + ?lt + length payload"
  let ?d = "(48 + 2 * q) # ?n # ?body"
  have bytes: "\<forall>x\<in>set ?body. x < 256"
    using topic payload by (auto simp: ntob_eq)
  then have mb: "map (\<lambda>x. x mod 256) ?body = ?body"
    by (simp add: map_idI)
  have lb: "length ?body = ?n"
    by (simp add: ntob_eq)
  have pk: "buildPacket PACKET_TYPE_PUBLISH (2 * q) (Some (stolpb topic @ ntob j)) (Some payload) = ?d"
  proof -
    have "map (\<lambda>x. x mod 256) (stolpb topic @ ntob j) @ map (\<lambda>x. x mod 256) payload = ?body"
      using mb by (simp add: stolpb_def stob_def)
    moreover have "header_byte PACKET_TYPE_PUBLISH (2 * q) = 48 + 2 * q"
      using q by (auto simp: header_byte_eq)
    moreover have "length (stolpb topic @ ntob j) + length payload = ?n"
      by (simp add: stolpb_def stob_def ntob_eq)
    ultimately show ?thesis
      using n by (simp add: buildPacket_small opt_list_def)
  qed
  have u: "Uint8Array ?d = ?d"
    using bytes n q by (intro Uint8Array_bytes) auto
  have ty: "drop_bit 4 (num (idx ?d 0)) = 3" "num (idx ?d 0) AND 15 = 2 * q"
    using q by (auto simp: idx_def num_def drop_bit_eq_div and_15)
  have r: "read_len ?d 1 (Finite 0) (Finite 1) = (Finite ?n, 2)"
    using n by (simp add: read_len_short)
  have s: "slice_to ?d 2 (js_add (Finite 2) (Finite ?n)) = ?body"
    using lb n by (simp add: slice_def)
  have qq: "drop_bit 1 (2 * q) AND 3 = q"
    using q by (auto simp: drop_bit_eq_div and_3)
  have lt: "bton ?body = ?lt"
    using n by (simp add: ntob_eq bton_Cons2)
  have tp: "slice ?body 2 (2 + ?lt) = topic"
    by (simp add: slice_def ntob_eq)
  have id: "bton (slice ?body (2 + ?lt) (2 + ?lt + 2)) = j"
    using j by (simp add: slice_def ntob_eq bton_Cons2)
  have pl: "slice ?body (2 + ?lt + 2) ?n = payload"
    by (simp add: slice_def ntob_eq)
  have pr: "buildPacket PACKET_TYPE_PUBREC 0 (Some (stolpb topic @ ntob j @ payload)) None
          = buildPacket PACKET_TYPE_PUBREC 0 (Some ?body) None"
    by (simp add: stolpb_def stob_def)
  show ?thesis
    unfolding pk receivePacket_def u Let_def ty r prod.case s qq lt tp id pl pr
    using q lim by (auto simp: sendPacket_plain ack_def slice_def ntob_eq fromCharCode_apply_def)
qed

lemma ack_repeated:
  assumes t: "type = PACKET_TYPE_PUBACK \<or> type = PACKET_TYPE_PUBCOMP
            \<or> type = PACKET_TYPE_SUBACK \<or> type = PACKET_TYPE_UNSUBACK"
    and k: "k < 65536"
    and first: "receivePacket lim (ack type k) c = Inr c'"
  shows "receivePacket lim (ack type k) c' = Inr c'"
proof -
  have h: "handleAck (ntob k) c = Inr c'"
    using first by (simp add: receivePacket_ack[OF t])
  have "callbacks c' k = None"
  proof (cases "callbacks c k")
    case None
    with h show ?thesis
      by (simp add: handleAck_ntob[OF k])
  next
    case (Some cb)
    obtain es where "invoke cb (Bytes []) Undefined = Inr es"
      using invoke_Bytes by blast
    with Some h show ?thesis
      by (auto simp: handleAck_ntob[OF k])
  qed
  then show ?thesis
    by (simp add: receivePacket_ack[OF t] handleAck_ntob[OF k])
qed


lemma publish_twice_example:
  "andThen (publish [97, 47, 98] [104, 105] (OptObject False 1 False) (Some 7) example_client)
     (publish [97, 47, 98] [104, 105] (OptObject False 1 False) (Some 8)) = Inr two_pending"
  unfolding publish_qos1_example andThen_def
  by (simp add: publish_qos_pos flags_eval qos1_published_def two_pending_def
      buildPacket_small opt_list_def stolpb_def stob_def ntob_eq header_byte_eq)

lemma js_shr7_bound: "js_shr n 7 < 2 ^ 24"
proof -
  define w where "w = n mod 2 ^ 32"
  have w32: "w < 4294967296"
    by (simp add: w_def)
  show ?thesis
  proof (cases "w < 2 ^ 31")
    case True
    then have "w < 2147483648"
      by simp
    then have "int w div 128 < 16777216"
      by linarith
    with True show ?thesis
      by (simp add: js_shr_def Let_def w_def)
  next
    case False
    have "int w - 4294967296 < 0"
      using w32 by linarith
    then have "(int w - 4294967296) div 128 < 0"
      by linarith
    with False show ?thesis
      by (simp add: js_shr_def Let_def w_def)
  qed
qed

lemma encode_shape:
  "encodeRemainingLength n \<noteq> []
   \<and> (\<forall>b\<in>set (butlast (encodeRemainingLength n)). 128 \<le> b \<and> b < 256)
   \<and> last (encodeRemainingLength n) < 128"
proof (induction n rule: encodeRemainingLength.induct)
  case (1 n)
  show ?case
  proof (cases "n div 128 = 0")
    case True
    then show ?thesis
      by (simp add: encodeRemainingLength.simps[of n])
  next
    case False
    have m: "n mod 128 + 128 < 256"
      by (simp add: add.commute)
    from False "1.IH" m show ?thesis
      by (simp add: encodeRemainingLength.simps[of n])
  qed
qed

lemma write_len_bytes:
  "\<exists>lb. lb \<noteq> [] \<and> length lb \<le> 5
        \<and> (\<forall>b\<in>set (butlast lb). 128 \<le> b \<and> b < 256) \<and> last lb < 128
        \<and> (\<forall>bs p. write_len bs p n = copy_in bs p lb)"
proof (cases "0 < js_shr n 7")
  case False
  have "\<forall>bs p. write_len bs p n = copy_in bs p [n mod 128]"
  proof (intro allI)
    fix bs p
    show "write_len bs p n = copy_in bs p [n mod 128]"
      using False by (subst write_len.simps) (simp add: Let_def)
  qed
  then show ?thesis
    by (intro exI[of _ "[n mod 128]"]) simp
next
  case True
  define r where "r = nat (js_shr n 7)"
  have r24: "r < 2 ^ 24"
    using js_shr7_bound[of n] True by (simp add: r_def)
  then have r28: "r < 2 ^ 28" and r31: "r < 2 ^ 31"
    by simp_all
  let ?lb = "(n mod 128 + 128) # encodeRemainingLength r"
  have len: "length (encodeRemainingLength r) \<le> 4"
    by (simp add: length_encode[OF r28])
  have w: "\<forall>bs p. write_len bs p n = copy_in bs p ?lb"
  proof (intro allI)
    fix bs p
    have "write_len bs p n = write_len (store bs p (n mod 128 OR 128)) (p + 1) r"
      using True by (subst write_len.simps) (simp add: Let_def r_def)
    then show "write_len bs p n = copy_in bs p ?lb"
      by (simp add: write_len_copy_in[OF r31] or_128)
  qed
  have m: "n mod 128 + 128 < 256"
    by (simp add: add.commute)
  have "?lb \<noteq> [] \<and> length ?lb \<le> 5
        \<and> (\<forall>b\<in>set (butlast ?lb). 128 \<le> b \<and> b < 256) \<and> last ?lb < 128"
    using encode_shape[of r] len m by simp
  with w show ?thesis
    by blast
qed

lemma buildPacket_bytes:
  "\<exists>lb. lb \<noteq> [] \<and> length lb \<le> 5
        \<and> (\<forall>b\<in>set (butlast lb). 128 \<le> b \<and> b < 256) \<and> last lb < 128
        \<and> buildPacket type flags header payload =
            take (4 + (length (opt_list header) + length (opt_list payload)))
              (header_byte type flags # lb
                 @ map (\<lambda>x. x mod 256) (opt_list header)
                 @ map (\<lambda>x. x mod 256) (opt_list payload))"
proof -
  let ?n = "length (opt_list header) + length (opt_list payload)"
  obtain lb where shape: "lb \<noteq> []" "length lb \<le> 5"
      "\<forall>b\<in>set (butlast lb). 128 \<le> b \<and> b < 256" "last lb < 128"
    and w: "\<And>bs p. write_len bs p ?n = copy_in bs p lb"
    using write_len_bytes[of ?n] by blast
  have lbb: "map (\<lambda>x. x mod 256) lb = lb"
  proof (rule map_idI)
    fix x
    assume "x \<in> set lb"
    then have "x \<in> set (butlast lb @ [last lb])"
      using shape(1) by simp
    then have "x \<in> set (butlast lb) \<or> x = last lb"
      unfolding set_append by auto
    with shape show "x mod 256 = x"
      by auto
  qed
  have n: "(case header of Some h \<Rightarrow> length h | None \<Rightarrow> 0)
         + (case payload of Some q \<Rightarrow> length q | None \<Rightarrow> 0) = ?n"
    by (simp add: opt_list_def split: option.splits)
  have h: "\<And>bs p. (case header of Some h \<Rightarrow> copy_in bs p h | None \<Rightarrow> (bs, p))
             = copy_in bs p (opt_list header)"
    by (simp add: opt_list_def split: option.splits)
  have q: "\<And>bs p. (case payload of Some q \<Rightarrow> copy_in bs p q | None \<Rightarrow> (bs, p))
             = copy_in bs p (opt_list payload)"
    by (simp add: opt_list_def split: option.splits)
  have "buildPacket type flags header payload =
     (case copy_in (replicate (4 + ?n) 0) 0
             ((push_bit 4 type OR (flags AND 15)) # lb @ opt_list header @ opt_list payload)
      of (bs, p) \<Rightarrow> take p bs)"
    unfolding buildPacket_def n h q Let_def
    by (simp add: w copy_in_append split: prod.splits)
  then have "buildPacket type flags header payload =
            take (4 + ?n)
              (header_byte type flags # lb
                 @ map (\<lambda>x. x mod 256) (opt_list header)
                 @ map (\<lambda>x. x mod 256) (opt_list payload))"
    unfolding take_copy_in by (simp add: header_byte_def lbb)
  with shape show ?thesis
    by blast
qed


lemma buildPacket_variable_header:
  assumes h: "\<forall>x\<in>set h. x < 256" and q: "2 \<le> length q"
    and pkt: "pkt = buildPacket type flags (Some h) (Some q)"
    and L: "L = Suc (length (takeWhile (\<lambda>b. 128 \<le> b) (tl pkt)))"
  shows "slice pkt (1 + L) (1 + L + length h) = h"
proof -
  obtain lb where shape: "lb \<noteq> []" "length lb \<le> 5"
      "\<forall>b\<in>set (butlast lb). 128 \<le> b \<and> b < 256" "last lb < 128"
    and b: "buildPacket type flags (Some h) (Some q) =
            take (4 + (length (opt_list (Some h)) + length (opt_list (Some q))))
              (header_byte type flags # lb
                 @ map (\<lambda>x. x mod 256) (opt_list (Some h))
                 @ map (\<lambda>x. x mod 256) (opt_list (Some q)))"
    using buildPacket_bytes[of type flags "Some h" "Some q"] by blast
  define R where "R = map (\<lambda>x. x mod 256) q"
  have mh: "map (\<lambda>x. x mod 256) h = h"
    by (rule map_idI) (use h in simp)
  have "pkt = take (4 + (length h + length q)) ((header_byte type flags # lb @ h) @ R)"
    by (simp add: pkt b opt_list_def mh R_def)
  also have "\<dots> = (header_byte type flags # lb @ h)
        @ take (4 + (length h + length q) - length (header_byte type flags # lb @ h)) R"
    by (rule take_prefix) (use shape q in simp)
  finally have p: "pkt = header_byte type flags # (butlast lb @ [last lb]) @ h
        @ take (4 + (length h + length q) - length (header_byte type flags # lb @ h)) R"
    using shape(1) by simp
  define T where "T = h @ take (4 + (length h + length q) - length (header_byte type flags # lb @ h)) R"
  have tl: "tl pkt = butlast lb @ (last lb # T)"
    by (simp add: p T_def)
  have "takeWhile (\<lambda>b. 128 \<le> b) (tl pkt) = butlast lb"
    unfolding tl using shape by (simp add: takeWhile_append2)
  then have "L = length lb"
    using shape(1) by (simp add: L)
  moreover have "pkt = (header_byte type flags # lb) @ h
        @ take (4 + (length h + length q) - length (header_byte type flags # lb @ h)) R"
    using p shape(1) by simp
  ultimately show ?thesis
    by (simp add: slice_def)
qed

lemma connect_header_bytes: "\<forall>x\<in>set (connect_header c). x < 256"
  by (auto simp: connect_header_def stolpb_def stob_def ntob_eq)

lemma length_connect_header: "length (connect_header c) = 10"
  by (simp add: connect_header_def stolpb_def stob_def ntob_eq)

lemma connect_packet_small:
  assumes "length (clientId c) \<le> 115"
  shows "buildPacket PACKET_TYPE_CONNECT 0 (Some (connect_header c)) (Some (stolpb (clientId c))) =
           [16, 12 + length (clientId c)] @ connect_header c
             @ [0, length (clientId c)] @ map (\<lambda>x. x mod 256) (clientId c)"
proof -
  have mh: "map (\<lambda>x. x mod 256) (connect_header c) = connect_header c"
    by (rule map_idI) (use connect_header_bytes in simp)
  have "length (opt_list (Some (connect_header c))) + length (opt_list (Some (stolpb (clientId c))))
      < 128"
    using assms by (simp add: opt_list_def length_connect_header stolpb_def stob_def ntob_eq)
  then show ?thesis
    using assms
    by (simp add: buildPacket_small header_byte_eq opt_list_def mh length_connect_header)
       (simp add: stolpb_def stob_def ntob_eq)
qed

section \<open>The remaining length survives the round trip\<close>

text \<open>
  C1. For every \<open>n\<close> below \<open>2 ^ 28\<close>, encoding the remaining length \<open>n\<close> and decoding the bytes
  gives \<open>n\<close> back, and the encoding takes \<open>k\<close> bytes, where \<open>k\<close> is 1 for \<open>n < 128\<close>, 2 for
  \<open>n < 16384\<close>, 3 for \<open>n < 2097152\<close> and 4 otherwise, the least number of 7-bit groups that hold
  \<open>n\<close>. This is stated twice. For the two loops alone: the loop of \<open>buildPacket\<close> writes \<open>k\<close>
  bytes at position \<open>p\<close> of any buffer with room for four bytes there, and the loop of
  \<open>_receivePacket\<close>, started at \<open>p\<close> on the result, returns \<open>n\<close> and stops at \<open>p + k\<close>. And for a
  whole packet: when variable header and payload have \<open>n\<close> bytes together, the reading loop run
  on the packet that \<open>buildPacket\<close> returns gives \<open>n\<close> and stops at \<open>1 + k\<close>.
\<close>

theorem remaining_length_roundtrip:
  assumes n: "n < 2 ^ 28"
  shows "\<exists>k. k = (if n < 128 then 1 else if n < 16384 then 2 else if n < 2097152 then 3 else 4)
       \<and> (p + 4 \<le> length bs \<longrightarrow>
            (\<exists>bs'. write_len bs p n = (bs', p + k)
                \<and> read_len bs' p (Finite 0) (Finite 1) = (Finite n, p + k)))
       \<and> (length (opt_list header) + length (opt_list payload) = n \<longrightarrow>
            read_len (buildPacket type flags header payload) 1 (Finite 0) (Finite 1)
              = (Finite n, 1 + k))"
proof -
  let ?e = "encodeRemainingLength n"
  let ?bs' = "take p bs @ ?e @ drop (p + length ?e) bs"
  have len: "length ?e = (if n < 128 then 1 else if n < 16384 then 2 else if n < 2097152 then 3 else 4)"
    by (rule length_encode[OF n])
  then have le4: "length ?e \<le> 4"
    by (simp split: if_splits)
  have n31: "n < 2 ^ 31"
    using n by simp
  have loop: "\<exists>bs'. write_len bs p n = (bs', p + length ?e)
      \<and> read_len bs' p (Finite 0) (Finite 1) = (Finite n, p + length ?e)"
    if room: "p + 4 \<le> length bs"
  proof -
    have lp: "length (take p bs) = p"
      using room by simp
    have eq: "length ?bs' = length bs"
      using room le4 by simp
    have "take (length bs) ?bs' = ?bs'"
      by (rule take_all) (simp only: eq order_refl)
    then have w: "write_len bs p n = (?bs', p + length ?e)"
      by (simp only: write_len_copy_in[OF n31] copy_in_eq map_mod_encode)
    have "read_len ?bs' (length (take p bs)) (Finite 0) (Finite 1)
        = (Finite (0 + n * 1), length (take p bs) + length ?e)"
      by (rule read_len_encode) (use n in simp)
    then have r: "read_len ?bs' p (Finite 0) (Finite 1) = (Finite n, p + length ?e)"
      by (simp only: lp add_0 mult_1_right)
    from w r show ?thesis
      by blast
  qed
  have packet: "read_len (buildPacket type flags header payload) 1 (Finite 0) (Finite 1)
      = (Finite n, 1 + length ?e)"
    if "length (opt_list header) + length (opt_list payload) = n"
    using buildPacket_read_len[of header payload type flags] n that by simp
  from loop packet show ?thesis
    unfolding len[symmetric] by blast
qed

theorem remaining_length_roundtrip_witness:
  "(\<exists>bs'. write_len (replicate 8 0) 1 300 = (bs', 3) \<and> read_len bs' 1 (Finite 0) (Finite 1) = (Finite 300, 3))
   \<and> read_len (buildPacket PACKET_TYPE_PUBLISH 0 (Some (replicate 200 7)) (Some (replicate 100 9))) 1 (Finite 0) (Finite 1)
       = (Finite 300, 3)"
  using remaining_length_roundtrip[of 300 1 "replicate 8 0" "Some (replicate 200 7)"
      "Some (replicate 100 9)" PACKET_TYPE_PUBLISH 0]
  by (simp add: opt_list_def)

section \<open>The layout of a packet\<close>

text \<open>
  C2. \<open>buildPacket\<close> allocates \<open>4 + remainLen\<close> bytes, one short of the fixed header byte plus
  a four-byte remaining length. From 2097152 bytes of variable header and payload on, the
  last byte is written past the end of the buffer and is lost: a PUBLISH with the 3-byte
  topic field \<open>[0, 1, 97]\<close> and a payload of 2097148 zero bytes followed by the byte 255, in all
  \<open>1 + 4 + 2097152\<close> bytes by the layout, comes out 2097156 bytes long and without the 255.
  Below that size the layout is as stated (\<open>buildPacket_layout\<close>).
\<close>

theorem buildPacket_drops_last_byte:
  "buildPacket PACKET_TYPE_PUBLISH 0 (Some [0, 1, 97]) (Some (replicate 2097148 0 @ [255]))
     = [48, 128, 128, 128, 1, 0, 1, 97] @ replicate 2097148 0"
proof -
  have e: "encodeRemainingLength 2097152 = [128, 128, 128, 1]"
    by (simp add: encode_small encode_big)
  have "buildPacket PACKET_TYPE_PUBLISH 0 (Some [0, 1, 97]) (Some (replicate 2097148 0 @ [255]))
      = take 2097156 ([48, 128, 128, 128, 1, 0, 1, 97] @ replicate 2097148 0 @ [255])"
    by (subst buildPacket_eq) (simp_all add: opt_list_def header_byte_def e)
  then show ?thesis
    by simp
qed

section \<open>The answer to an inbound PUBLISH\<close>

text \<open>
  C3. An inbound PUBLISH with QoS 2, topic \<open>"a"\<close>, packet identifier 5 and payload \<open>"x"\<close>
  is answered with a PUBREC whose variable header is the whole body of the PUBLISH (topic
  length, topic, identifier and payload, 6 bytes), not the 2-byte identifier: the packet
  sent is \<open>[80, 6, 0, 1, 97, 0, 5, 120]\<close> where the identifier alone would give
  \<open>[80, 2, 0, 5]\<close>. The QoS 1 branch beside it passes \<open>ntob(packetId)\<close> and answers the same
  PUBLISH at QoS 1 with \<open>[64, 2, 0, 5]\<close> (\<open>qos1_publish_answered_with_identifier\<close>); for
  every PUBLISH with a body below 128 bytes, \<open>receivePacket_publish\<close> gives both answers.
  The engine has to take at least one argument in \<open>String.fromCharCode.apply\<close>, which is
  why the limit is written \<open>Suc lim\<close>.
\<close>

theorem qos2_publish_answered_with_whole_body:
  "receivePacket (Suc lim) [52, 6, 0, 1, 97, 0, 5, 120] example_client
     = Inr (example_client
          \<lparr>trace := [Emit_message [97] [120], Send [80, 6, 0, 1, 97, 0, 5, 120]]\<rparr>)"
proof -
  let ?d = "[52, 6, 0, 1, 97, 0, 5, 120]"
  let ?b = "[0, 1, 97, 0, 5, 120]"
  have u: "Uint8Array ?d = ?d"
    by (simp add: Uint8Array_def)
  have t: "drop_bit 4 (num (idx ?d 0)) = 3" "num (idx ?d 0) AND 15 = 4"
    by (simp_all add: idx_def num_def drop_bit_eq_div and_15)
  have r: "read_len ?d 1 (Finite 0) (Finite 1) = (Finite 6, 2)"
    by (simp add: read_len_short)
  have s: "slice_to ?d 2 (js_add (Finite 2) (Finite 6)) = ?b"
    by (simp add: slice_def)
  have q: "drop_bit 1 (4::nat) AND 3 = 2"
    by (simp add: drop_bit_eq_div and_3)
  have n: "bton ?b = 1"
    by (simp add: bton_Cons2)
  show ?thesis
    unfolding receivePacket_def u Let_def t r prod.case s q n
    by (simp add: slice_def bton_Cons2 emit_def sendPacket_def buildPacket_small opt_list_def
        header_byte_eq example_client_eq fromCharCode_apply_def)
qed

section \<open>The QoS 2 handshake of a publish\<close>

text \<open>
  C4, as amended. After a QoS 2 publish has registered its completion under the identifier
  \<open>k\<close>, a PUBREC that carries \<open>k\<close> makes the client send a PUBREL whose variable header is the
  two bytes of \<open>k\<close> and changes nothing else: the registry is as it was and no callback is
  called. A PUBCOMP that carries \<open>k\<close> then calls the application's callback and removes the
  entry; so does a PUBACK, a SUBACK or an UNSUBACK that carries \<open>k\<close>, because \<open>_handleAck\<close>
  looks the entry up by the identifier alone and keeps no record of the packet type it
  waits for.
\<close>

theorem qos2_publish_handshake:
  assumes pub: "publish topic message (OptObject dup 2 remain) cb c0 = Inr c"
    and k: "nextId c0 = k" and k16: "k < 65536"
    and c1: "c1 = emit (Send (ack PACKET_TYPE_PUBREL k)) c"
  shows "callbacks c k = Some (PublishCb cb)
       \<and> receivePacket lim (ack PACKET_TYPE_PUBREC k) c = Inr c1
       \<and> callbacks c1 = callbacks c
       \<and> (type = PACKET_TYPE_PUBCOMP \<or> type = PACKET_TYPE_PUBACK
            \<or> type = PACKET_TYPE_SUBACK \<or> type = PACKET_TYPE_UNSUBACK \<longrightarrow>
          receivePacket lim (ack type k) c1 =
            Inr (c1\<lparr>trace := trace c1 @ (case cb of None \<Rightarrow> [] | Some f \<Rightarrow> [Call f]),
                    callbacks := (callbacks c1)(k := None)\<rparr>))"
proof -
  have c: "c = c0\<lparr>nextId := nextId c0 + 1,
            trace := trace c0 @
              [Send (buildPacket PACKET_TYPE_PUBLISH
                       (push_bit 3 (of_bool dup) OR push_bit 1 (2 AND 3) OR of_bool remain)
                       (Some (stolpb topic @ ntob (nextId c0)))
                       (if message \<noteq> [] then Some (stob message) else None))],
            callbacks := (callbacks c0)(nextId c0 \<mapsto> PublishCb cb)\<rparr>"
    using pub by (simp add: publish_qos_pos)
  have pending: "callbacks c k = Some (PublishCb cb)"
    using k by (simp add: c)
  have same: "callbacks c1 = callbacks c"
    by (simp add: c1 emit_def)
  have rec: "receivePacket lim (ack PACKET_TYPE_PUBREC k) c = Inr c1"
    by (simp only: receivePacket_pubrec c1)
  have res: "receivePacket lim (ack type k) c1 =
            Inr (c1\<lparr>trace := trace c1 @ (case cb of None \<Rightarrow> [] | Some f \<Rightarrow> [Call f]),
                    callbacks := (callbacks c1)(k := None)\<rparr>)"
    if "type = PACKET_TYPE_PUBCOMP \<or> type = PACKET_TYPE_PUBACK
            \<or> type = PACKET_TYPE_SUBACK \<or> type = PACKET_TYPE_UNSUBACK"
  proof (rule ack_receive_pending)
    show "type = PACKET_TYPE_PUBACK \<or> type = PACKET_TYPE_PUBCOMP
            \<or> type = PACKET_TYPE_SUBACK \<or> type = PACKET_TYPE_UNSUBACK"
      using that by blast
    show "k < 65536"
      by (rule k16)
    show "callbacks c1 k = Some (PublishCb cb)"
      by (simp only: same pending)
  qed
  from pending rec same res show ?thesis
    by blast
qed

theorem qos2_publish_handshake_witness:
  "publish [97, 47, 98] [104, 105] (OptObject False 2 False) (Some 7) example_client
     = Inr qos2_published
   \<and> callbacks qos2_published 1 = Some (PublishCb (Some 7))
   \<and> receivePacket 65535 (ack PACKET_TYPE_PUBREC 1) qos2_published = Inr qos2_released
   \<and> callbacks qos2_released = callbacks qos2_published
   \<and> receivePacket 65535 (ack PACKET_TYPE_PUBCOMP 1) qos2_released =
        Inr (qos2_released\<lparr>trace := trace qos2_released @ [Call 7],
                             callbacks := (callbacks qos2_released)(1 := None)\<rparr>)"
proof -
  have n: "nextId example_client = 1"
    by (simp add: example_client_eq)
  note w = qos2_publish_handshake[OF publish_qos2_example n _ qos2_released_eq,
      of 65535 PACKET_TYPE_PUBCOMP]
  have a: "callbacks qos2_published 1 = Some (PublishCb (Some 7))"
    using w by simp
  have b: "receivePacket 65535 (ack PACKET_TYPE_PUBREC 1) qos2_published = Inr qos2_released"
    using w by simp
  have c: "callbacks qos2_released = callbacks qos2_published"
    using w by simp
  have d: "receivePacket 65535 (ack PACKET_TYPE_PUBCOMP 1) qos2_released =
        Inr (qos2_released\<lparr>trace := trace qos2_released @ [Call 7],
                             callbacks := (callbacks qos2_released)(1 := None)\<rparr>)"
    using w by simp
  from publish_qos2_example a b c d show ?thesis
    by blast
qed

text \<open>
  C4 as stated fails: it lets the completion resolve only when a PUBCOMP arrives. A PUBACK
  with identifier 1, delivered after the QoS 2 publish with identifier 1 and before any
  PUBREC or PUBCOMP, calls the callback 7 and empties the registry.
\<close>

theorem puback_resolves_qos2_publish:
  "publish [97, 47, 98] [104, 105] (OptObject False 2 False) (Some 7) example_client
     = Inr qos2_published
   \<and> receivePacket 65535 [64, 2, 0, 1] qos2_published =
        Inr \<lparr> clientId = [99], clean = True, keepAlive = KeepNumber 60, nextId = 2,
              callbacks = Map.empty,
              trace = [Send [52, 9, 0, 3, 97, 47, 98, 0, 1, 104, 105], Call 7] \<rparr>"
proof -
  have a: "ack PACKET_TYPE_PUBACK 1 = [64, 2, 0, 1]"
    by (simp add: ack_eq)
  have p: "callbacks qos2_published 1 = Some (PublishCb (Some 7))"
    by (simp add: qos2_published_def)
  have "receivePacket 65535 (ack PACKET_TYPE_PUBACK 1) qos2_published =
     Inr (qos2_published\<lparr>trace := trace qos2_published @ [Call 7],
            callbacks := (callbacks qos2_published)(1 := None)\<rparr>)"
    using ack_receive_pending[of PACKET_TYPE_PUBACK 1 qos2_published "Some 7" 65535] p by simp
  then have "receivePacket 65535 [64, 2, 0, 1] qos2_published =
        Inr \<lparr> clientId = [99], clean = True, keepAlive = KeepNumber 60, nextId = 2,
              callbacks = Map.empty,
              trace = [Send [52, 9, 0, 3, 97, 47, 98, 0, 1, 104, 105], Call 7] \<rparr>"
    unfolding a by (simp add: qos2_published_def)
  with publish_qos2_example show ?thesis
    by blast
qed


section \<open>Acknowledgments are matched by identifier\<close>

text \<open>
  Below 65536 a QoS 1 publish and its PUBACK meet. The completion is registered under the
  identifier \<open>k\<close> taken from the counter; a PUBACK that carries \<open>k\<close> calls the application's
  callback, if there is one, and removes the entry; a PUBACK that carries another identifier
  \<open>j\<close> does to the entry under \<open>j\<close>, if there was one before the publish, what it would have
  done without the publish, and nothing to the entry under \<open>k\<close>.
\<close>

lemma puback_below_65536:
  assumes pub: "publish topic message (OptObject dup 1 remain) cb c0 = Inr c"
    and j: "j < 65536"
  shows "callbacks c (nextId c0) = Some (PublishCb cb)
       \<and> (j = nextId c0 \<longrightarrow>
            receivePacket lim (ack PACKET_TYPE_PUBACK j) c =
              Inr (c\<lparr>trace := trace c @ (case cb of None \<Rightarrow> [] | Some f \<Rightarrow> [Call f]),
                     callbacks := (callbacks c)(j := None)\<rparr>))
       \<and> (j \<noteq> nextId c0 \<longrightarrow>
            receivePacket lim (ack PACKET_TYPE_PUBACK j) c =
              (case callbacks c0 j of
                 None \<Rightarrow> Inr c
               | Some cb' \<Rightarrow>
                   (case invoke cb' (Bytes []) Undefined of
                      Inl e \<Rightarrow> Inl e
                    | Inr es \<Rightarrow>
                        Inr (c\<lparr>trace := trace c @ es,
                               callbacks := (callbacks c)(j := None)\<rparr>))))"
proof -
  have c: "c = c0\<lparr>nextId := nextId c0 + 1,
            trace := trace c0 @
              [Send (buildPacket PACKET_TYPE_PUBLISH
                       (push_bit 3 (of_bool dup) OR push_bit 1 (1 AND 3) OR of_bool remain)
                       (Some (stolpb topic @ ntob (nextId c0)))
                       (if message \<noteq> [] then Some (stob message) else None))],
            callbacks := (callbacks c0)(nextId c0 \<mapsto> PublishCb cb)\<rparr>"
    using pub by (simp add: publish_qos_pos)
  have pending: "callbacks c (nextId c0) = Some (PublishCb cb)"
    by (simp add: c)
  have r: "receivePacket lim (ack PACKET_TYPE_PUBACK j) c = handleAck (ntob j) c"
    by (rule receivePacket_ack) simp
  have same: "handleAck (ntob j) c =
      Inr (c\<lparr>trace := trace c @ (case cb of None \<Rightarrow> [] | Some f \<Rightarrow> [Call f]),
             callbacks := (callbacks c)(j := None)\<rparr>)"
    if "j = nextId c0"
  proof -
    have "callbacks c j = Some (PublishCb cb)"
      using pending that by simp
    then show ?thesis
      by (cases cb) (simp_all add: handleAck_ntob[OF j])
  qed
  have other: "handleAck (ntob j) c =
      (case callbacks c0 j of
         None \<Rightarrow> Inr c
       | Some cb' \<Rightarrow>
           (case invoke cb' (Bytes []) Undefined of
              Inl e \<Rightarrow> Inl e
            | Inr es \<Rightarrow>
                Inr (c\<lparr>trace := trace c @ es, callbacks := (callbacks c)(j := None)\<rparr>)))"
    if "j \<noteq> nextId c0"
  proof -
    have "callbacks c j = callbacks c0 j"
      using that by (simp add: c)
    then show ?thesis
      by (simp add: handleAck_ntob[OF j])
  qed
  show ?thesis
    unfolding r using pending same other by blast
qed

lemma puback_bytes: "b0 < 256 \<Longrightarrow> b1 < 256 \<Longrightarrow> [64, 2, b0, b1] = ack PACKET_TYPE_PUBACK (b0 * 256 + b1)"
  by (simp add: ack_eq)

text \<open>
  C5. The counter \<open>_nextId\<close> is never wrapped, while \<open>ntob\<close> keeps the low 16 bits of an
  identifier. On a connected client whose counter has reached 65536, a QoS 1 publish takes
  the identifier 65536: the PUBLISH goes out with the identifier bytes \<open>[0, 0]\<close> and the
  completion is registered under 65536, which no PUBACK can carry. The PUBACK that answers
  the packet carries 0; it finds the callback of \<open>_connect\<close> under 0, calls it, so that
  \<open>error\<close> is emitted with \<open>Connection failed\<close>, and deletes it. The completion of the publish
  stays pending then, and after every other PUBACK as well.
\<close>

theorem puback_after_counter_overflow:
  assumes n: "nextId c0 = 65536"
    and con: "callbacks c0 0 = Some ConnectCb"
    and pub: "publish topic message (OptObject dup 1 remain) cb c0 = Inr c"
  shows "trace c = trace c0 @
           [Send (buildPacket PACKET_TYPE_PUBLISH
                    (push_bit 3 (of_bool dup) OR push_bit 1 (1 AND 3) OR of_bool remain)
                    (Some (stolpb topic @ [0, 0]))
                    (if message \<noteq> [] then Some (stob message) else None))]
       \<and> callbacks c 65536 = Some (PublishCb cb)
       \<and> receivePacket lim [64, 2, 0, 0] c =
           Inr (c\<lparr>trace := trace c @ [Emit_error ''Connection failed''],
                  callbacks := (callbacks c)(0 := None)\<rparr>)
       \<and> (b0 < 256 \<and> b1 < 256 \<longrightarrow>
            (\<exists>c'. receivePacket lim [64, 2, b0, b1] c = Inr c'
                \<and> callbacks c' 65536 = Some (PublishCb cb)))"
proof -
  have id: "ntob 65536 = [0, 0]"
    by (simp add: ntob_eq)
  have c: "c = c0\<lparr>nextId := nextId c0 + 1,
            trace := trace c0 @
              [Send (buildPacket PACKET_TYPE_PUBLISH
                       (push_bit 3 (of_bool dup) OR push_bit 1 (1 AND 3) OR of_bool remain)
                       (Some (stolpb topic @ [0, 0]))
                       (if message \<noteq> [] then Some (stob message) else None))],
            callbacks := (callbacks c0)(65536 \<mapsto> PublishCb cb)\<rparr>"
    using pub by (simp add: publish_qos_pos n id)
  have tr: "trace c = trace c0 @
           [Send (buildPacket PACKET_TYPE_PUBLISH
                    (push_bit 3 (of_bool dup) OR push_bit 1 (1 AND 3) OR of_bool remain)
                    (Some (stolpb topic @ [0, 0]))
                    (if message \<noteq> [] then Some (stob message) else None))]"
    by (simp add: c)
  have pending: "callbacks c 65536 = Some (PublishCb cb)"
    by (simp add: c)
  have zero: "callbacks c 0 = Some ConnectCb"
    by (simp add: c con)
  have a0: "[64, 2, 0, 0] = ack PACKET_TYPE_PUBACK 0"
    by (simp add: ack_eq)
  have "receivePacket lim (ack PACKET_TYPE_PUBACK 0) c = handleAck (ntob 0) c"
    by (rule receivePacket_ack) simp
  also have "\<dots> = Inr (c\<lparr>trace := trace c @ [Emit_error ''Connection failed''],
                  callbacks := (callbacks c)(0 := None)\<rparr>)"
    by (simp add: handleAck_ntob zero connect_error_message_def)
  finally have first: "receivePacket lim [64, 2, 0, 0] c =
           Inr (c\<lparr>trace := trace c @ [Emit_error ''Connection failed''],
                  callbacks := (callbacks c)(0 := None)\<rparr>)"
    by (simp only: a0)
  have any: "\<exists>c'. receivePacket lim [64, 2, b0, b1] c = Inr c'
                \<and> callbacks c' 65536 = Some (PublishCb cb)"
    if b: "b0 < 256 \<and> b1 < 256"
  proof -
    let ?j = "b0 * 256 + b1"
    have j: "?j < 65536"
      using b by simp
    have r: "receivePacket lim [64, 2, b0, b1] c = handleAck (ntob ?j) c"
      using b by (simp only: puback_bytes) (rule receivePacket_ack, simp)
    show ?thesis
    proof (cases "callbacks c ?j")
      case None
      with pending show ?thesis
        by (simp add: r handleAck_ntob[OF j])
    next
      case (Some cb')
      obtain es where "invoke cb' (Bytes []) Undefined = Inr es"
        using invoke_Bytes by blast
      with Some pending j show ?thesis
        by (simp add: r handleAck_ntob[OF j])
    qed
  qed
  from tr pending first any show ?thesis
    by blast
qed

theorem puback_after_counter_overflow_witness:
  "nextId (example_connected\<lparr>nextId := 65536\<rparr>) = 65536
   \<and> callbacks (example_connected\<lparr>nextId := 65536\<rparr>) 0 = Some ConnectCb
   \<and> publish [97, 47, 98] [104, 105] (OptObject False 1 False) (Some 7)
         (example_connected\<lparr>nextId := 65536\<rparr>) = Inr publish_65536
   \<and> callbacks publish_65536 65536 = Some (PublishCb (Some 7))
   \<and> receivePacket 65535 [64, 2, 0, 0] publish_65536 =
       Inr (publish_65536\<lparr>trace := trace publish_65536 @ [Emit_error ''Connection failed''],
                            callbacks := (callbacks publish_65536)(0 := None)\<rparr>)
   \<and> (\<exists>c'. receivePacket 65535 [64, 2, 255, 255] publish_65536 = Inr c'
          \<and> callbacks c' 65536 = Some (PublishCb (Some 7)))"
proof -
  let ?c0 = "example_connected\<lparr>nextId := 65536\<rparr>"
  have n: "nextId ?c0 = 65536"
    by simp
  have con: "callbacks ?c0 0 = Some ConnectCb"
    by (simp add: example_connected_def)
  have pub: "publish [97, 47, 98] [104, 105] (OptObject False 1 False) (Some 7) ?c0
      = Inr publish_65536"
    by (simp add: publish_qos_pos flags_eval example_connected_def publish_65536_def
        buildPacket_small opt_list_def stolpb_def stob_def ntob_eq header_byte_eq)
  note w = puback_after_counter_overflow[OF n con pub, of 65535 255 255]
  have a: "callbacks publish_65536 65536 = Some (PublishCb (Some 7))"
    using w by blast
  have b: "receivePacket 65535 [64, 2, 0, 0] publish_65536 =
       Inr (publish_65536\<lparr>trace := trace publish_65536 @ [Emit_error ''Connection failed''],
                            callbacks := (callbacks publish_65536)(0 := None)\<rparr>)"
    using w by blast
  have "(255::nat) < 256 \<and> (255::nat) < 256"
    by simp
  with w have c: "\<exists>c'. receivePacket 65535 [64, 2, 255, 255] publish_65536 = Inr c'
          \<and> callbacks c' 65536 = Some (PublishCb (Some 7))"
    by blast
  from n con pub a b c show ?thesis
    by blast
qed

section \<open>The outcome of the connect handshake\<close>

text \<open>
  C6. While the callback of \<open>_connect\<close> is registered under identifier 0, a CONNACK whose
  body is the flags byte \<open>f\<close> and the return code \<open>rc\<close> emits \<open>connect\<close> with \<open>f\<close>, the byte that
  holds the session-present flag, when \<open>rc\<close> is 0; it emits \<open>error\<close> with the message of the
  return code for 1 to 5 (\<open>Client not authorized\<close> for 5), and with \<open>Connection failed\<close> for
  any other code.
\<close>

theorem connack_outcome:
  assumes pending: "callbacks c 0 = Some ConnectCb"
    and f: "f < 256" and rc: "rc < 256"
  shows "receivePacket lim [32, 2, f, rc] c =
     Inr (emit (if rc = 0 then Emit_connect (Number f)
                else if rc = 1 then Emit_error ''Unsupported protocol level''
                else if rc = 2 then Emit_error ''Invalid client identifier''
                else if rc = 3 then Emit_error ''Service unavailable''
                else if rc = 4 then Emit_error ''Malformed username or password''
                else if rc = 5 then Emit_error ''Client not authorized''
                else Emit_error ''Connection failed'') c)"
  by (simp add: receivePacket_connack[OF f rc] pending emit_def connect_error_message_def)

theorem connack_outcome_witness:
  "connect example_client = Inr example_connected
   \<and> receivePacket 65535 [32, 2, 1, 0] example_connected
       = Inr (emit (Emit_connect (Number 1)) example_connected)
   \<and> receivePacket 65535 [32, 2, 0, 5] example_connected
       = Inr (emit (Emit_error ''Client not authorized'') example_connected)
   \<and> receivePacket 65535 [32, 2, 0, 3] example_connected
       = Inr (emit (Emit_error ''Service unavailable'') example_connected)
   \<and> receivePacket 65535 [32, 2, 0, 9] example_connected
       = Inr (emit (Emit_error ''Connection failed'') example_connected)"
proof -
  have p: "callbacks example_connected 0 = Some ConnectCb"
    by (simp add: example_connected_def)
  show ?thesis
    using connect_example
      connack_outcome[OF p, of 1 0 65535] connack_outcome[OF p, of 0 5 65535]
      connack_outcome[OF p, of 0 3 65535] connack_outcome[OF p, of 0 9 65535]
    by simp
qed

section \<open>Closing the transport\<close>

text \<open>
  C7 as stated fails: after two QoS 1 publishes, with the completions of identifiers 1 and 2
  pending, the handler of the socket's \<open>close\<close> event emits \<open>close\<close> and nothing more; both
  entries stay in the registry and neither callback is called.
\<close>

theorem close_leaves_completions_pending:
  "andThen (publish [97, 47, 98] [104, 105] (OptObject False 1 False) (Some 7) example_client)
     (publish [97, 47, 98] [104, 105] (OptObject False 1 False) (Some 8)) = Inr two_pending
   \<and> ws_onclose two_pending =
     \<lparr> clientId = [99], clean = True, keepAlive = KeepNumber 60, nextId = 3,
       callbacks = [1 \<mapsto> PublishCb (Some 7), 2 \<mapsto> PublishCb (Some 8)],
       trace = [Send [50, 9, 0, 3, 97, 47, 98, 0, 1, 104, 105],
                Send [50, 9, 0, 3, 97, 47, 98, 0, 2, 104, 105],
                Emit_close] \<rparr>"
proof -
  have "ws_onclose two_pending =
     \<lparr> clientId = [99], clean = True, keepAlive = KeepNumber 60, nextId = 3,
       callbacks = [1 \<mapsto> PublishCb (Some 7), 2 \<mapsto> PublishCb (Some 8)],
       trace = [Send [50, 9, 0, 3, 97, 47, 98, 0, 1, 104, 105],
                Send [50, 9, 0, 3, 97, 47, 98, 0, 2, 104, 105],
                Emit_close] \<rparr>"
    by (simp add: ws_onclose_def emit_def two_pending_def)
  with publish_twice_example show ?thesis
    by blast
qed


text \<open>
  C7, as amended. When the transport signals closure the client emits \<open>close\<close>; the registry
  of pending completions is left as it is and no callback is called.
\<close>

theorem close_only_emits_close:
  "ws_onclose c = c\<lparr>trace := trace c @ [Emit_close]\<rparr>
   \<and> callbacks (ws_onclose c) = callbacks c"
  by (simp add: ws_onclose_def emit_def)

section \<open>Malformed input\<close>




section \<open>How often a completion is called\<close>

text \<open>
  C9. \<open>_handleAck\<close> deletes the entry of a completion after calling it, so a repeated PUBACK,
  PUBCOMP, SUBACK or UNSUBACK finds nothing to call (\<open>ack_repeated\<close>). The CONNACK branch calls the entry of
  identifier 0 and leaves it in place: after \<open>_connect\<close>, a CONNACK delivered twice calls the
  connect callback twice, and \<open>connect\<close> is emitted twice.
\<close>

theorem connack_twice_connects_twice:
  "andThen (andThen (connect example_client) (receivePacket lim [32, 2, 0, 0]))
     (receivePacket lim [32, 2, 0, 0])
   = Inr \<lparr> clientId = [99], clean = True, keepAlive = KeepNumber 60, nextId = 1,
           callbacks = [0 \<mapsto> ConnectCb],
           trace = [Send [16, 13, 0, 4, 77, 81, 84, 84, 4, 3, 0, 60, 0, 1, 99],
                    Emit_connect (Number 0), Emit_connect (Number 0)] \<rparr>"
  by (simp add: connect_example andThen_def receivePacket_connack example_connected_def)

section \<open>The keep-alive field\<close>

text \<open>
  C10 as stated fails: the field does carry the configured number when that number is 1. With
  \<open>keepAlive: 1\<close> the CONNECT packet has the bytes \<open>[0, 1]\<close> at offsets 10 and 11, the
  keep-alive field, which is the number 1 that the caller configured.
\<close>

theorem keep_alive_one_is_sent_as_one:
  "connect (Client \<lparr>opt_clientId = Some [99], opt_clean = True, opt_keepAlive = Some 1\<rparr> []) =
     Inr \<lparr> clientId = [99], clean = True, keepAlive = KeepTrue, nextId = 1,
           callbacks = [0 \<mapsto> ConnectCb],
           trace = [Send [16, 13, 0, 4, 77, 81, 84, 84, 4, 3, 0, 1, 0, 1, 99]] \<rparr>
   \<and> bton (slice [16, 13, 0, 4, 77, 81, 84, 84, 4, 3, 0, 1, 0, 1, 99] 10 12) = 1"
proof -
  have "connect (Client \<lparr>opt_clientId = Some [99], opt_clean = True, opt_keepAlive = Some 1\<rparr> []) =
     Inr \<lparr> clientId = [99], clean = True, keepAlive = KeepTrue, nextId = 1,
           callbacks = [0 \<mapsto> ConnectCb],
           trace = [Send [16, 13, 0, 4, 77, 81, 84, 84, 4, 3, 0, 1, 0, 1, 99]] \<rparr>"
    by (simp add: connect_eq Client_def truthy_number_def connect_header_def
        keep_alive_number_def buildPacket_small opt_list_def stolpb_def stob_def ntob_eq
        header_byte_eq)
  moreover have "bton (slice [16, 13, 0, 4, 77, 81, 84, 84, 4, 3, 0, 1, 0, 1, 99] 10 12) = 1"
    by (simp add: slice_def bton_Cons2)
  ultimately show ?thesis
    by blast
qed


text \<open>
  C10, as amended. The constructor stores \<open>!!options.keepAlive || 60\<close>, that is \<open>true\<close> for a
  truthy option and 60 otherwise, and \<open>ntob\<close> reads \<open>true\<close> as 1. So in the CONNECT packet that
  \<open>_connect\<close> sends the 16-bit big-endian keep-alive field \<open>ka\<close> is 1 when the option is truthy
  and 60 when it is absent or 0, and it equals the configured number only when that number is
  1. The field is stated on the bytes sent: the variable header, which begins after the first
  byte and the length bytes (all but the last of these have bit 7 set), is the protocol name,
  the level 4, the connect flags and the two bytes of \<open>ka\<close>; and for a client identifier of
  at most 115 characters, where the remaining length takes one byte, the packet is written
  out in full, with the field at offsets 10 and 11.
\<close>

theorem keep_alive_field:
  "\<exists>pkt ka. ka = (if truthy_number (opt_keepAlive opts) then 1 else 60)
     \<and> connect (Client opts rnd) =
         Inr ((Client opts rnd)\<lparr>trace := [Send pkt], callbacks := [0 \<mapsto> ConnectCb]\<rparr>)
     \<and> slice pkt (1 + Suc (length (takeWhile (\<lambda>b. 128 \<le> b) (tl pkt))))
           (1 + Suc (length (takeWhile (\<lambda>b. 128 \<le> b) (tl pkt))) + 10)
         = [0, 4, 77, 81, 84, 84, 4, if opt_clean opts then 3 else 2, 0, ka]
     \<and> (length (clientId (Client opts rnd)) \<le> 115 \<longrightarrow>
          pkt = [16, 12 + length (clientId (Client opts rnd)),
                 0, 4, 77, 81, 84, 84, 4, if opt_clean opts then 3 else 2, 0, ka,
                 0, length (clientId (Client opts rnd))]
                @ map (\<lambda>x. x mod 256) (clientId (Client opts rnd)))
     \<and> (opt_keepAlive opts = Some n \<longrightarrow> (int ka = n) = (n = 1))"
proof -
  let ?c = "Client opts rnd"
  let ?pkt = "buildPacket PACKET_TYPE_CONNECT 0 (Some (connect_header ?c)) (Some (stolpb (clientId ?c)))"
  let ?ka = "if truthy_number (opt_keepAlive opts) then 1 else 60 :: nat"
  let ?L = "Suc (length (takeWhile (\<lambda>b. 128 \<le> b) (tl ?pkt)))"
  have hd: "connect_header ?c = [0, 4, 77, 81, 84, 84, 4, if opt_clean opts then 3 else 2, 0, ?ka]"
    by (simp add: Client_header)
  have a: "connect ?c = Inr (?c\<lparr>trace := [Send ?pkt], callbacks := [0 \<mapsto> ConnectCb]\<rparr>)"
    by (simp add: connect_eq) (simp add: Client_def)
  have "slice ?pkt (1 + ?L) (1 + ?L + length (connect_header ?c)) = connect_header ?c"
    by (rule buildPacket_variable_header[OF _ _ refl refl])
       (simp_all add: connect_header_bytes stolpb_def stob_def ntob_eq)
  then have b: "slice ?pkt (1 + ?L) (1 + ?L + 10)
         = [0, 4, 77, 81, 84, 84, 4, if opt_clean opts then 3 else 2, 0, ?ka]"
    by (simp only: length_connect_header) (simp only: hd)
  have c: "?pkt = [16, 12 + length (clientId ?c),
                 0, 4, 77, 81, 84, 84, 4, if opt_clean opts then 3 else 2, 0, ?ka,
                 0, length (clientId ?c)]
                @ map (\<lambda>x. x mod 256) (clientId ?c)"
    if "length (clientId ?c) \<le> 115"
    using connect_packet_small[OF that] by (simp add: hd)
  have d: "opt_keepAlive opts = Some n \<longrightarrow> (int ?ka = n) = (n = 1)"
    by (auto simp: truthy_number_def)
  from a b c d show ?thesis
    by blast
qed


theorem keep_alive_field_witness:
  "connect (Client \<lparr>opt_clientId = Some [99], opt_clean = True, opt_keepAlive = Some 30\<rparr> []) =
     Inr \<lparr> clientId = [99], clean = True, keepAlive = KeepTrue, nextId = 1,
           callbacks = [0 \<mapsto> ConnectCb],
           trace = [Send [16, 13, 0, 4, 77, 81, 84, 84, 4, 3, 0, 1, 0, 1, 99]] \<rparr>
   \<and> connect (Client \<lparr>opt_clientId = Some [99], opt_clean = True, opt_keepAlive = Some 0\<rparr> []) =
     Inr \<lparr> clientId = [99], clean = True, keepAlive = KeepNumber 60, nextId = 1,
           callbacks = [0 \<mapsto> ConnectCb],
           trace = [Send [16, 13, 0, 4, 77, 81, 84, 84, 4, 3, 0, 60, 0, 1, 99]] \<rparr>
   \<and> connect (Client \<lparr>opt_clientId = Some [99], opt_clean = True, opt_keepAlive = None\<rparr> []) =
     Inr \<lparr> clientId = [99], clean = True, keepAlive = KeepNumber 60, nextId = 1,
           callbacks = [0 \<mapsto> ConnectCb],
           trace = [Send [16, 13, 0, 4, 77, 81, 84, 84, 4, 3, 0, 60, 0, 1, 99]] \<rparr>"
proof -
  let ?o30 = "\<lparr>opt_clientId = Some [99], opt_clean = True, opt_keepAlive = Some 30\<rparr>"
  let ?o0 = "\<lparr>opt_clientId = Some [99], opt_clean = True, opt_keepAlive = Some 0\<rparr>"
  let ?oN = "\<lparr>opt_clientId = Some [99], opt_clean = True, opt_keepAlive = None\<rparr>"
  have l: "length (clientId (Client ?o30 [])) \<le> 115" "length (clientId (Client ?o0 [])) \<le> 115"
      "length (clientId (Client ?oN [])) \<le> 115"
    by (simp_all add: Client_def)
  have a: "connect (Client ?o30 []) =
     Inr \<lparr> clientId = [99], clean = True, keepAlive = KeepTrue, nextId = 1,
           callbacks = [0 \<mapsto> ConnectCb],
           trace = [Send [16, 13, 0, 4, 77, 81, 84, 84, 4, 3, 0, 1, 0, 1, 99]] \<rparr>"
    using keep_alive_field[of ?o30 "[]" 30] l(1)
    by (auto simp: Client_def truthy_number_def)
  have b: "connect (Client ?o0 []) =
     Inr \<lparr> clientId = [99], clean = True, keepAlive = KeepNumber 60, nextId = 1,
           callbacks = [0 \<mapsto> ConnectCb],
           trace = [Send [16, 13, 0, 4, 77, 81, 84, 84, 4, 3, 0, 60, 0, 1, 99]] \<rparr>"
    using keep_alive_field[of ?o0 "[]" 0] l(2)
    by (auto simp: Client_def truthy_number_def)
  have c: "connect (Client ?oN []) =
     Inr \<lparr> clientId = [99], clean = True, keepAlive = KeepNumber 60, nextId = 1,
           callbacks = [0 \<mapsto> ConnectCb],
           trace = [Send [16, 13, 0, 4, 77, 81, 84, 84, 4, 3, 0, 60, 0, 1, 99]] \<rparr>"
    using keep_alive_field[of ?oN "[]" 0] l(3)
    by (auto simp: Client_def truthy_number_def)
  from a b c show ?thesis
    by blast
qed


end
